theory Spec2Isabelle
  imports Complex_Main "HOL-Library.Char_ord" "HOL-Library.List_Lexorder" "HOL-Library.Sublist"
begin

section \<open>The data model of \<^verbatim>\<open>clean_data\<close> (src/app.py)\<close>

text \<open>
  \<^verbatim>\<open>clean_data\<close> works on a pandas DataFrame: an ordered list of named columns, each
  column holding cells of one storage type (its dtype). The frame is modelled as the
  loader (\<^verbatim>\<open>pd.read_csv\<close> / \<^verbatim>\<open>pd.read_excel\<close>) hands it to line 34 of the source.

  \<^item> \<^verbatim>\<open>int64\<close> and \<^verbatim>\<open>bool\<close> columns cannot hold a missing cell;
  \<^item> \<^verbatim>\<open>float64\<close> columns hold numbers or NaN; floating-point numbers are idealised
    as rationals (rounding is not modelled);
  \<^item> \<^verbatim>\<open>datetime64[ns]\<close> columns hold timestamps (an integer count since the epoch)
    or NaT;
  \<^item> \<^verbatim>\<open>object\<close> columns are the free-form text columns: strings or NaN. Strings are
    byte strings in UTF-8.
\<close>

type_synonym timestamp = int

datatype dtype = Int64 | Float64 | BoolT | Datetime64 | Object

datatype coldata =
    IntCol "int list"
  | FloatCol "rat option list"
  | BoolCol "bool list"
  | DateCol "timestamp option list"
  | ObjCol "string option list"

type_synonym column = "string \<times> coldata"
type_synonym frame = "column list"

text \<open>A uniform view of one cell; \<open>NaN\<close> is the missing cell (NaN or NaT).\<close>

datatype cell = NaN | IntV int | FloatV rat | BoolV bool | DateV timestamp | StrV string

fun cells :: "coldata \<Rightarrow> cell list" where
  "cells (IntCol xs) = map IntV xs"
| "cells (FloatCol xs) = map (\<lambda>x. case x of None \<Rightarrow> NaN | Some v \<Rightarrow> FloatV v) xs"
| "cells (BoolCol xs) = map BoolV xs"
| "cells (DateCol xs) = map (\<lambda>x. case x of None \<Rightarrow> NaN | Some v \<Rightarrow> DateV v) xs"
| "cells (ObjCol xs) = map (\<lambda>x. case x of None \<Rightarrow> NaN | Some v \<Rightarrow> StrV v) xs"

fun dtype_of :: "coldata \<Rightarrow> dtype" where
  "dtype_of (IntCol xs) = Int64"
| "dtype_of (FloatCol xs) = Float64"
| "dtype_of (BoolCol xs) = BoolT"
| "dtype_of (DateCol xs) = Datetime64"
| "dtype_of (ObjCol xs) = Object"

fun col_len :: "coldata \<Rightarrow> nat" where
  "col_len (IntCol xs) = length xs"
| "col_len (FloatCol xs) = length xs"
| "col_len (BoolCol xs) = length xs"
| "col_len (DateCol xs) = length xs"
| "col_len (ObjCol xs) = length xs"

text \<open>The exceptions pandas raises inside \<^verbatim>\<open>clean_data\<close>; the source catches none.\<close>

datatype error =
    DuplicateLabelError
  | ModeLookupError

text \<open>Every column of a DataFrame has the same number of rows.\<close>

definition nrows :: "frame \<Rightarrow> nat" where
  "nrows df = (case df of [] \<Rightarrow> 0 | hc # _ \<Rightarrow> col_len (snd hc))"

definition wf_frame :: "frame \<Rightarrow> bool" where
  "wf_frame df = list_all (\<lambda>hc. col_len (snd hc) = nrows df) df"

section \<open>Header mapping (lines 36-45)\<close>

text \<open>The degree sign U+00B0 is the two bytes C2 B0 in UTF-8.\<close>

definition degree_sign :: string where
  "degree_sign = [CHR 0xC2, CHR 0xB0]"

definition header_mapping :: "(string \<times> string) list" where
  "header_mapping =
     [(''Sample_ID'', ''Sample ID''),
      (''Test_Date'', ''Test Date''),
      (''Temp ('' @ degree_sign @ ''C)'', ''Temperature ('' @ degree_sign @ ''C)''),
      (''Result_Value'', ''Result Value'')]"

text \<open>\<^verbatim>\<open>header_mapping.get(h, h)\<close>, which is also what \<^verbatim>\<open>df.rename\<close> does to a label.\<close>

definition mapped_header :: "string \<Rightarrow> string" where
  "mapped_header h = (case map_of header_mapping h of Some m \<Rightarrow> m | None \<Rightarrow> h)"

definition rename_columns :: "frame \<Rightarrow> frame" where
  "rename_columns df = map (\<lambda>hc. (mapped_header (fst hc), snd hc)) df"

section \<open>Date columns (lines 47-50)\<close>

text \<open>
  \<^verbatim>\<open>col.lower()\<close> on the UTF-8 bytes: only the ASCII capitals lower to an ASCII letter
  of \<^verbatim>\<open>"date"\<close>, and bytes of a non-ASCII character are never ASCII, so the test
  \<^verbatim>\<open>"date" in col.lower()\<close> is decided by lowering the ASCII capitals.
\<close>

definition lower_char :: "char \<Rightarrow> char" where
  "lower_char c =
     (let n = (of_char c :: nat) in if 65 \<le> n \<and> n \<le> 90 then char_of (n + 32) else c)"

definition lower :: "string \<Rightarrow> string" where
  "lower s = map lower_char s"

text \<open>Python's \<^verbatim>\<open>sub in s\<close> on strings.\<close>

fun contains :: "string \<Rightarrow> string \<Rightarrow> bool" where
  "contains sub [] = (sub = [])"
| "contains sub (c # cs) = (take (length sub) (c # cs) = sub \<or> contains sub cs)"

definition is_date_name :: "string \<Rightarrow> bool" where
  "is_date_name h = contains ''date'' (lower h)"

text \<open>
  \<^verbatim>\<open>pd.to_datetime(series, errors="coerce")\<close> belongs to pandas, not to this
  repository: its parser is the parameter \<open>to_dt\<close>, which gives for a column and a
  row position the parsed timestamp, or \<open>None\<close> (NaT) where the cell does not parse.
  The result is a \<^verbatim>\<open>datetime64[ns]\<close> series of the same length.
\<close>

definition to_datetime :: "(coldata \<Rightarrow> nat \<Rightarrow> timestamp option) \<Rightarrow> coldata \<Rightarrow> coldata" where
  "to_datetime to_dt c = DateCol (map (to_dt c) [0..<col_len c])"

definition convert_dates :: "(coldata \<Rightarrow> nat \<Rightarrow> timestamp option) \<Rightarrow> frame \<Rightarrow> frame" where
  "convert_dates to_dt df =
     map (\<lambda>hc. if is_date_name (fst hc) then (fst hc, to_datetime to_dt (snd hc)) else hc) df"

section \<open>Sentinels and numeric columns (lines 52-55)\<close>

definition sentinels :: "string list" where
  "sentinels = [''N/A'', ''NA'', ''<0.3'']"

text \<open>\<^verbatim>\<open>df[col].replace({"N/A": np.nan, "NA": np.nan, "<0.3": np.nan})\<close>\<close>

definition replace_sentinels :: "string option list \<Rightarrow> string option list" where
  "replace_sentinels xs =
     map (\<lambda>x. case x of None \<Rightarrow> None
                | Some s \<Rightarrow> if s \<in> set sentinels then None else Some s) xs"

text \<open>
  \<^verbatim>\<open>pd.to_numeric(series, errors="coerce")\<close>: the parser of one text cell is the
  parameter \<open>to_num\<close> (an integer, a float, or \<open>None\<close> where the text is no number).
  The result is \<^verbatim>\<open>int64\<close> when every cell is an integer, and \<^verbatim>\<open>float64\<close> with
  NaN for the cells that did not parse otherwise.
\<close>

datatype num = NInt int | NFlt rat

fun num_val :: "num \<Rightarrow> rat" where
  "num_val (NInt i) = of_int i"
| "num_val (NFlt r) = r"

fun is_int_cell :: "num option \<Rightarrow> bool" where
  "is_int_cell (Some (NInt i)) = True"
| "is_int_cell _ = False"

fun int_of_cell :: "num option \<Rightarrow> int" where
  "int_of_cell (Some (NInt i)) = i"
| "int_of_cell _ = 0"

definition to_numeric :: "(string \<Rightarrow> num option) \<Rightarrow> string option list \<Rightarrow> coldata" where
  "to_numeric to_num xs =
     (let ys = map (\<lambda>x. case x of None \<Rightarrow> None | Some s \<Rightarrow> to_num s) xs
      in if list_all is_int_cell ys then IntCol (map int_of_cell ys)
         else FloatCol (map (map_option num_val) ys))"

fun convert_numeric_col :: "(string \<Rightarrow> num option) \<Rightarrow> coldata \<Rightarrow> coldata" where
  "convert_numeric_col to_num (ObjCol xs) = to_numeric to_num (replace_sentinels xs)"
| "convert_numeric_col to_num c = c"

definition convert_numeric :: "(string \<Rightarrow> num option) \<Rightarrow> frame \<Rightarrow> frame" where
  "convert_numeric to_num df = map (\<lambda>hc. (fst hc, convert_numeric_col to_num (snd hc))) df"

section \<open>Missing values (lines 57-62)\<close>

definition non_missing :: "'a option list \<Rightarrow> 'a list" where
  "non_missing xs = concat (map (\<lambda>x. case x of None \<Rightarrow> [] | Some v \<Rightarrow> [v]) xs)"

text \<open>\<^verbatim>\<open>Series.fillna(value)\<close>; filling with NaN leaves the series as it is.\<close>

definition fillna :: "'a option \<Rightarrow> 'a option list \<Rightarrow> 'a option list" where
  "fillna v xs = map (\<lambda>x. case x of None \<Rightarrow> v | Some y \<Rightarrow> Some y) xs"

text \<open>\<^verbatim>\<open>Series.mean()\<close> skips NaN; the mean of no value is NaN.\<close>

definition mean :: "rat option list \<Rightarrow> rat option" where
  "mean xs =
     (let vs = non_missing xs
      in if vs = [] then None else Some (sum_list vs / of_nat (length vs)))"

text \<open>
  \<^verbatim>\<open>Series.mode()\<close> drops NaN and returns the most frequent values in sorted order;
  it is empty when the series has no value at all.
\<close>

definition mode :: "'a::linorder option list \<Rightarrow> 'a list" where
  "mode xs =
     (let vs = non_missing xs;
          m = fold max (map (count_list vs) vs) 0
      in sort (remdups (filter (\<lambda>v. count_list vs v = m) vs)))"

text \<open>\<^verbatim>\<open>series[0]\<close> on the result of \<^verbatim>\<open>mode()\<close>: a lookup error on the empty series.\<close>

definition first_mode :: "'a::linorder option list \<Rightarrow> error + 'a" where
  "first_mode xs = (case mode xs of [] \<Rightarrow> Inl ModeLookupError | m # _ \<Rightarrow> Inr m)"

text \<open>
  One round of the loop of line 58; \<^verbatim>\<open>df[col].fillna(..., inplace=True)\<close> writes the
  filled column back into the frame. An \<^verbatim>\<open>int64\<close> or \<^verbatim>\<open>bool\<close> column has no
  missing cell, so \<^verbatim>\<open>fillna\<close> changes nothing there; the mode is looked up all the
  same, and the lookup is what raises.
\<close>

fun impute_col :: "coldata \<Rightarrow> error + coldata" where
  "impute_col (IntCol xs) = Inr (IntCol xs)"
| "impute_col (FloatCol xs) = Inr (FloatCol (fillna (mean xs) xs))"
| "impute_col (BoolCol xs) =
     (case first_mode (map Some xs) of Inl e \<Rightarrow> Inl e | Inr m \<Rightarrow> Inr (BoolCol xs))"
| "impute_col (DateCol xs) =
     (case first_mode xs of Inl e \<Rightarrow> Inl e | Inr m \<Rightarrow> Inr (DateCol (fillna (Some m) xs)))"
| "impute_col (ObjCol xs) =
     (case first_mode xs of Inl e \<Rightarrow> Inl e | Inr m \<Rightarrow> Inr (ObjCol (fillna (Some m) xs)))"

fun impute :: "frame \<Rightarrow> error + frame" where
  "impute [] = Inr []"
| "impute (hc # df) =
     (case impute_col (snd hc) of
        Inl e \<Rightarrow> Inl e
      | Inr c \<Rightarrow> (case impute df of Inl e \<Rightarrow> Inl e | Inr df' \<Rightarrow> Inr ((fst hc, c) # df')))"

section \<open>Duplicates (lines 64-65)\<close>

definition rows :: "frame \<Rightarrow> cell list list" where
  "rows df = map (\<lambda>i. map (\<lambda>hc. cells (snd hc) ! i) df) [0..<nrows df]"

text \<open>
  \<^verbatim>\<open>DataFrame.duplicated(keep="first")\<close>: a row is marked when an earlier row is equal
  to it in every column; two missing cells count as equal.
\<close>

fun duplicated_from :: "'a list \<Rightarrow> 'a list \<Rightarrow> bool list" where
  "duplicated_from seen [] = []"
| "duplicated_from seen (r # rs) = (r \<in> set seen) # duplicated_from (r # seen) rs"

definition duplicated :: "'a list \<Rightarrow> bool list" where
  "duplicated rs = duplicated_from [] rs"

text \<open>Boolean indexing: the positions where the mask is true, in order.\<close>

definition select :: "bool list \<Rightarrow> 'a list \<Rightarrow> 'a list" where
  "select keep xs = map fst (filter snd (zip xs keep))"

fun col_select :: "bool list \<Rightarrow> coldata \<Rightarrow> coldata" where
  "col_select keep (IntCol xs) = IntCol (select keep xs)"
| "col_select keep (FloatCol xs) = FloatCol (select keep xs)"
| "col_select keep (BoolCol xs) = BoolCol (select keep xs)"
| "col_select keep (DateCol xs) = DateCol (select keep xs)"
| "col_select keep (ObjCol xs) = ObjCol (select keep xs)"

definition drop_duplicates :: "frame \<Rightarrow> frame" where
  "drop_duplicates df =
     (let keep = map Not (duplicated (rows df))
      in map (\<lambda>hc. (fst hc, col_select keep (snd hc))) df)"

section \<open>Metadata report and the pipeline (lines 67-83)\<close>

text \<open>\<^verbatim>\<open>df.isnull().sum()\<close> and \<^verbatim>\<open>df.nunique()\<close> for one column.\<close>

definition missing_count :: "coldata \<Rightarrow> nat" where
  "missing_count c = length (filter (\<lambda>v. v = NaN) (cells c))"

definition nunique :: "coldata \<Rightarrow> nat" where
  "nunique c = length (remdups (filter (\<lambda>v. v \<noteq> NaN) (cells c)))"

record metadata =
  index_labels :: "string list"
  original_headers :: "string list"
  mapped_headers :: "string list"
  column_types :: "dtype list"
  missing_values :: "nat list"
  unique_values :: "nat list"

record cleaned_output =
  cleaned_data :: frame
  metadata_report :: metadata

definition make_metadata :: "string list \<Rightarrow> frame \<Rightarrow> metadata" where
  "make_metadata orig df =
     \<lparr> index_labels = map fst df,
       original_headers = orig,
       mapped_headers = map mapped_header orig,
       column_types = map (\<lambda>hc. dtype_of (snd hc)) df,
       missing_values = map (\<lambda>hc. missing_count (snd hc)) df,
       unique_values = map (\<lambda>hc. nunique (snd hc)) df \<rparr>"

text \<open>
  The frame before line 57: headers mapped, date columns parsed, text columns made
  numeric.
\<close>

definition coerce ::
  "(coldata \<Rightarrow> nat \<Rightarrow> timestamp option) \<Rightarrow> (string \<Rightarrow> num option) \<Rightarrow> frame \<Rightarrow> frame" where
  "coerce to_dt to_num df = convert_numeric to_num (convert_dates to_dt (rename_columns df))"

text \<open>
  \<^verbatim>\<open>clean_data\<close>, from the loaded frame to the two sheets it writes. When two columns
  carry the same label after the renaming, \<^verbatim>\<open>df[col]\<close> is a DataFrame and not a
  Series, and pandas raises in the first loop that reaches the label (at the latest
  on \<^verbatim>\<open>.dtype\<close> in line 59).
\<close>

definition clean_data ::
  "(coldata \<Rightarrow> nat \<Rightarrow> timestamp option) \<Rightarrow> (string \<Rightarrow> num option) \<Rightarrow> frame \<Rightarrow> error + cleaned_output" where
  "clean_data to_dt to_num df =
     (let orig = map fst df
      in if \<not> distinct (map fst (rename_columns df)) then Inl DuplicateLabelError
         else case impute (coerce to_dt to_num df) of
                Inl e \<Rightarrow> Inl e
              | Inr imputed \<Rightarrow>
                  (let final = drop_duplicates imputed
                   in Inr \<lparr> cleaned_data = final,
                            metadata_report = make_metadata orig final \<rparr>))"

section \<open>Reference parsers for concrete runs\<close>

text \<open>
  Two instances of the pandas parsers, for evaluating \<^verbatim>\<open>clean_data\<close> on concrete
  frames. \<open>plain_number\<close> reads the plain decimal literals (an optional minus sign,
  digits, an optional fraction) to the number pandas reads them to, and gives no
  number for any other text; the examples use it on plain literals and on texts that
  are no numbers in any notation. \<open>plain_datetime\<close> keeps the cells of a
  \<^verbatim>\<open>datetime64[ns]\<close> column, reads an integer as a count since the epoch, and gives
  NaT for every other cell; the examples use it on timestamps and on texts that are
  no dates.
\<close>

definition digit_val :: "char \<Rightarrow> nat option" where
  "digit_val c =
     (let n = (of_char c :: nat) in if 48 \<le> n \<and> n \<le> 57 then Some (n - 48) else None)"

fun digits_val :: "nat \<Rightarrow> string \<Rightarrow> nat option" where
  "digits_val acc [] = Some acc"
| "digits_val acc (c # cs) =
     (case digit_val c of None \<Rightarrow> None | Some d \<Rightarrow> digits_val (10 * acc + d) cs)"

definition unsigned_number :: "string \<Rightarrow> num option" where
  "unsigned_number s =
     (let ip = takeWhile (\<lambda>c. c \<noteq> CHR ''.'') s;
          rest = dropWhile (\<lambda>c. c \<noteq> CHR ''.'') s
      in if ip = [] then None
         else case digits_val 0 ip of
                None \<Rightarrow> None
              | Some i \<Rightarrow>
                  (case rest of
                     [] \<Rightarrow> Some (NInt (int i))
                   | _ # fp \<Rightarrow>
                       (case digits_val 0 fp of
                          None \<Rightarrow> None
                        | Some f \<Rightarrow> Some (NFlt (of_nat i + of_nat f / 10 ^ length fp)))))"

fun minus_num :: "num \<Rightarrow> num" where
  "minus_num (NInt i) = NInt (- i)"
| "minus_num (NFlt r) = NFlt (- r)"

fun plain_number :: "string \<Rightarrow> num option" where
  "plain_number [] = None"
| "plain_number (c # cs) =
     (if c = CHR ''-'' then map_option minus_num (unsigned_number cs)
      else unsigned_number (c # cs))"

fun plain_datetime :: "coldata \<Rightarrow> nat \<Rightarrow> timestamp option" where
  "plain_datetime (DateCol xs) i = (if i < length xs then xs ! i else None)"
| "plain_datetime (IntCol xs) i = (if i < length xs then Some (xs ! i) else None)"
| "plain_datetime c i = None"

section \<open>Specification notions\<close>



text \<open>
  The value \<^verbatim>\<open>mode()[0]\<close> is specified to be: a most frequent value, and the least
  one among the most frequent values.
\<close>

definition smallest_mode :: "'a::linorder list \<Rightarrow> 'a \<Rightarrow> bool" where
  "smallest_mode vs m \<longleftrightarrow>
     m \<in> set vs \<and>
     (\<forall>v\<in>set vs. count_list vs v \<le> count_list vs m) \<and>
     (\<forall>v\<in>set vs. count_list vs v = count_list vs m \<longrightarrow> m \<le> v)"


text \<open>
  The tie-break of the specification: among the most frequent values, the one that
  occurs first in the column.
\<close>

definition first_occurrence_mode :: "'a list \<Rightarrow> 'a option" where
  "first_occurrence_mode vs =
     (let m = fold max (map (count_list vs) vs) 0 in find (\<lambda>v. count_list vs v = m) vs)"

section \<open>Example frames\<close>

text \<open>
  Frames as the loader produces them. The first two are the temperature column of the
  specification's scenario, once as \<^verbatim>\<open>read_csv\<close> loads it (the token \<^verbatim>\<open>N/A\<close> is a
  default missing-value marker of the reader) and once with the token kept as text.
\<close>

definition temp_frame_loaded :: frame where
  "temp_frame_loaded = [(''Temp ('' @ degree_sign @ ''C)'', FloatCol [Some 20, None, Some 22])]"

definition temp_frame_text :: frame where
  "temp_frame_text =
     [(''Temp ('' @ degree_sign @ ''C)'', ObjCol [Some ''20.0'', Some ''N/A'', Some ''22.0''])]"

text \<open>The sentinel-only scenario of the specification.\<close>

definition sentinel_frame :: frame where
  "sentinel_frame =
     [(''Sample_ID'', ObjCol [Some ''A1'', Some ''A1'']),
      (''Result_Value'', ObjCol [Some ''<0.3'', Some ''<0.3''])]"

text \<open>A frame with no missing cell, no duplicate row and standard headers.\<close>

definition clean_frame :: frame where
  "clean_frame =
     [(''Sample ID'', ObjCol [Some ''A1'', Some ''B2'']),
      (''Result Value'', FloatCol [Some (3 / 2), Some (5 / 2)])]"

text \<open>Further frames: a repeated row, a free-text column, unparseable dates, a gap.\<close>

definition repeat_frame :: frame where
  "repeat_frame =
     [(''Sample_ID'', IntCol [1, 1, 2]), (''Result_Value'', FloatCol [Some 5, None, Some 5])]"

definition notes_frame :: frame where
  "notes_frame =
     [(''Operator'', ObjCol [Some ''Kim'', Some ''NA'', Some ''Lee'']),
      (''Result_Value'', FloatCol [Some 1, Some 2, Some 3])]"

definition undated_frame :: frame where
  "undated_frame =
     [(''Test_Date'', ObjCol [Some ''soon'', Some ''later'']),
      (''Result_Value'', FloatCol [Some 1, Some 2])]"

definition gap_frame :: frame where
  "gap_frame =
     [(''Result_Value'', FloatCol [Some 4, None, Some 6, Some 4]),
      (''Temp'', ObjCol [Some ''20'', Some ''20'', Some ''20'', Some ''20''])]"

definition tie_frame :: frame where
  "tie_frame =
     [(''Test_Date'', DateCol [Some 2, Some 1, None]), (''Sample_ID'', IntCol [1, 2, 3])]"

definition visit_frame :: frame where
  "visit_frame =
     [(''Test_Date'', DateCol [Some 5, Some 3, None, Some 3, Some 5]),
      (''Passed'', BoolCol [True, False, True, True, False])]"

definition reading_frame :: frame where
  "reading_frame =
     [(''Temp ('' @ degree_sign @ ''C)'', FloatCol [Some 20, None, Some 22]),
      (''Sample_ID'', IntCol [1, 2, 3])]"


section \<open>Facts about the stages\<close>

subsection \<open>Header mapping and the date test\<close>


lemma mapped_header_cases:
  "mapped_header h =
     (if h = ''Sample_ID'' then ''Sample ID''
      else if h = ''Test_Date'' then ''Test Date''
      else if h = ''Temp ('' @ degree_sign @ ''C)'' then ''Temperature ('' @ degree_sign @ ''C)''
      else if h = ''Result_Value'' then ''Result Value''
      else h)"
  by (simp add: mapped_header_def header_mapping_def)

lemma mapped_header_idem: "mapped_header (mapped_header h) = mapped_header h"
  by (simp add: mapped_header_cases degree_sign_def)

lemma mapped_header_unmapped: "h \<notin> fst ` set header_mapping \<Longrightarrow> mapped_header h = h"
  by (simp add: mapped_header_def header_mapping_def)

lemma mapped_header_mapped: "(h, m) \<in> set header_mapping \<Longrightarrow> mapped_header h = m"
  by (auto simp add: mapped_header_def header_mapping_def degree_sign_def)

subsection \<open>Mean, mode and filling\<close>

lemma non_missing_Nil [simp]: "non_missing [] = []"
  by (simp add: non_missing_def)

lemma non_missing_Cons [simp]:
  "non_missing (x # xs) = (case x of None \<Rightarrow> non_missing xs | Some v \<Rightarrow> v # non_missing xs)"
  by (simp add: non_missing_def split: option.splits)

lemma set_non_missing: "set (non_missing xs) = {v. Some v \<in> set xs}"
  by (induction xs) (auto split: option.splits)

lemma non_missing_empty_iff: "non_missing xs = [] \<longleftrightarrow> (\<forall>x\<in>set xs. x = None)"
  by (induction xs) (auto split: option.splits)

lemma non_missing_map_Some [simp]: "non_missing (map Some xs) = xs"
  by (induction xs) auto

lemma fold_max_Max: "fold max (ns :: nat list) a = Max (insert a (set ns))"
  using Max.set_eq_fold [of a ns] by simp

lemma max_count_attained:
  assumes "vs \<noteq> []"
  shows "\<exists>v\<in>set vs. count_list vs v = fold max (map (count_list vs) vs) 0"
proof -
  let ?S = "insert 0 (set (map (count_list vs) vs))"
  have fin: "finite ?S" and ne: "?S \<noteq> {}" by auto
  have "Max ?S \<in> ?S" using Max_in [OF fin ne] .
  moreover obtain v where v: "v \<in> set vs" using assms by (cases vs) auto
  then have "count_list vs v \<in> ?S" by auto
  then have "count_list vs v \<le> Max ?S" using fin by (meson Max_ge)
  moreover have "0 < count_list vs v" using v count_list_0_iff [of vs v] by auto
  ultimately have "Max ?S \<in> set (map (count_list vs) vs)" by auto
  then show ?thesis by (auto simp: fold_max_Max)
qed

lemma count_le_max:
  "v \<in> set vs \<Longrightarrow> count_list vs v \<le> fold max (map (count_list vs) vs) 0"
  by (simp add: fold_max_Max)

lemma sorted_hd_least: "sorted (m # ms) \<Longrightarrow> v \<in> set (m # ms) \<Longrightarrow> m \<le> v"
  by auto

lemma mode_empty_iff: "mode xs = [] \<longleftrightarrow> non_missing xs = []"
proof
  assume "mode xs = []"
  show "non_missing xs = []"
  proof (rule ccontr)
    assume "non_missing xs \<noteq> []"
    from max_count_attained [OF this] obtain v where
      "v \<in> set (non_missing xs)"
      "count_list (non_missing xs) v = fold max (map (count_list (non_missing xs)) (non_missing xs)) 0"
      by blast
    then have "v \<in> set (mode xs)" by (simp add: mode_def Let_def)
    with \<open>mode xs = []\<close> show False by simp
  qed
next
  assume "non_missing xs = []"
  then show "mode xs = []" by (simp add: mode_def)
qed

lemma first_mode_smallest:
  assumes "non_missing xs \<noteq> []"
  shows "\<exists>m. first_mode xs = Inr m \<and> smallest_mode (non_missing xs) m"
proof -
  let ?vs = "non_missing xs"
  let ?k = "fold max (map (count_list ?vs) ?vs) 0"
  from assms obtain m ms where mode: "mode xs = m # ms"
    using mode_empty_iff [of xs] by (cases "mode xs") auto
  have set_mode: "set (mode xs) = {v \<in> set ?vs. count_list ?vs v = ?k}"
    by (auto simp: mode_def Let_def)
  have srt: "sorted (mode xs)" by (simp add: mode_def Let_def)
  have m_in: "m \<in> set ?vs" and m_cnt: "count_list ?vs m = ?k"
    using set_mode mode by auto
  have "\<forall>v\<in>set ?vs. count_list ?vs v \<le> count_list ?vs m"
    using count_le_max m_cnt by metis
  moreover have "\<forall>v\<in>set ?vs. count_list ?vs v = count_list ?vs m \<longrightarrow> m \<le> v"
  proof (intro ballI impI)
    fix v assume "v \<in> set ?vs" "count_list ?vs v = count_list ?vs m"
    then have "v \<in> set (m # ms)" using set_mode m_cnt mode by auto
    then show "m \<le> v" using srt mode sorted_hd_least by metis
  qed
  ultimately have "smallest_mode ?vs m" using m_in by (simp add: smallest_mode_def)
  then show ?thesis using mode by (auto simp: first_mode_def)
qed

lemma first_mode_error_iff: "first_mode xs = Inl e \<longleftrightarrow> e = ModeLookupError \<and> non_missing xs = []"
  using mode_empty_iff [of xs] by (cases "mode xs") (auto simp: first_mode_def)

lemma fillna_Some_no_missing: "None \<notin> set (fillna (Some m) xs)"
  by (auto simp: fillna_def split: option.splits)

lemma fillna_keeps: "i < length xs \<Longrightarrow> xs ! i = Some v \<Longrightarrow> fillna w xs ! i = Some v"
  by (simp add: fillna_def)

lemma fillna_fills: "i < length xs \<Longrightarrow> xs ! i = None \<Longrightarrow> fillna w xs ! i = w"
  by (simp add: fillna_def)

lemma length_fillna [simp]: "length (fillna w xs) = length xs"
  by (simp add: fillna_def)

lemma non_missing_fillna:
  "sum_list (non_missing (fillna (Some m) xs)) = sum_list (non_missing xs) + of_nat (length xs - length (non_missing xs)) * (m::rat)"
  "length (non_missing (fillna (Some m) xs)) = length xs"
  "length (non_missing xs) \<le> length xs"
  by (induction xs) (auto simp: fillna_def algebra_simps Suc_diff_le split: option.splits)

lemma mean_fillna:
  assumes "non_missing xs \<noteq> []" and "mean xs = Some m"
  shows "mean (fillna (mean xs) xs) = Some m"
proof -
  let ?n = "length (non_missing xs)" and ?s = "sum_list (non_missing xs)"
  have m: "m = ?s / of_nat ?n" using assms by (simp add: mean_def Let_def)
  have n0: "0 < ?n" using assms by simp
  have le: "?n \<le> length xs" by (rule non_missing_fillna)
  then have len0: "0 < length xs" using n0 by linarith
  have "?s + of_nat (length xs - ?n) * m = of_nat (length xs) * m"
    using n0 le by (simp add: m of_nat_diff field_simps)
  then have "(?s + of_nat (length xs - ?n) * m) / of_nat (length xs) = m"
    using len0 by simp
  moreover have "non_missing (fillna (Some m) xs) \<noteq> []"
    using non_missing_fillna(2) [of m xs] len0 by auto
  ultimately show ?thesis
    using assms(2) by (simp add: mean_def [of "fillna (Some m) xs"] Let_def non_missing_fillna)
qed

subsection \<open>Marking and dropping duplicate rows\<close>

lemma length_cells [simp]: "length (cells c) = col_len c"
  by (cases c) auto

lemma length_duplicated_from [simp]: "length (duplicated_from seen rs) = length rs"
  by (induction rs arbitrary: seen) auto

lemma duplicated_from_nth:
  "i < length rs \<Longrightarrow>
   duplicated_from seen rs ! i \<longleftrightarrow> rs ! i \<in> set seen \<or> (\<exists>j<i. rs ! j = rs ! i)"
proof (induction rs arbitrary: seen i)
  case Nil
  then show ?case by simp
next
  case (Cons r rs)
  show ?case
  proof (cases i)
    case 0
    then show ?thesis by simp
  next
    case (Suc k)
    with Cons.prems have k: "k < length rs" by simp
    have "(\<exists>j<Suc k. (r # rs) ! j = rs ! k) \<longleftrightarrow> r = rs ! k \<or> (\<exists>j<k. rs ! j = rs ! k)"
    proof
      assume "\<exists>j<Suc k. (r # rs) ! j = rs ! k"
      then obtain j where j: "j < Suc k" "(r # rs) ! j = rs ! k" by blast
      show "r = rs ! k \<or> (\<exists>j<k. rs ! j = rs ! k)"
      proof (cases j)
        case 0
        with j show ?thesis by simp
      next
        case (Suc j')
        with j have "j' < k" "rs ! j' = rs ! k" by auto
        then show ?thesis by blast
      qed
    next
      assume "r = rs ! k \<or> (\<exists>j<k. rs ! j = rs ! k)"
      then show "\<exists>j<Suc k. (r # rs) ! j = rs ! k"
      proof
        assume "r = rs ! k"
        then have "0 < Suc k \<and> (r # rs) ! 0 = rs ! k" by simp
        then show ?thesis by blast
      next
        assume "\<exists>j<k. rs ! j = rs ! k"
        then obtain j where "j < k" "rs ! j = rs ! k" by blast
        then have "Suc j < Suc k \<and> (r # rs) ! Suc j = rs ! k" by simp
        then show ?thesis by blast
      qed
    qed
    then show ?thesis using Cons.IH [OF k, of "r # seen"] Suc by auto
  qed
qed

lemma duplicated_nth:
  "i < length rs \<Longrightarrow> duplicated rs ! i \<longleftrightarrow> (\<exists>j<i. rs ! j = rs ! i)"
  by (simp add: duplicated_def duplicated_from_nth)

lemma select_Nil [simp]: "select keep [] = []" "select [] xs = []"
  by (simp_all add: select_def)

lemma select_Cons [simp]:
  "select (k # ks) (x # xs) = (if k then x # select ks xs else select ks xs)"
  by (simp add: select_def)

lemma map_select: "map f (select keep xs) = select keep (map f xs)"
  by (induction keep xs rule: list_induct2') auto

lemma length_select: "length keep = length xs \<Longrightarrow> length (select keep xs) = length (filter id keep)"
  by (induction keep xs rule: list_induct2) auto

lemma select_first_occurrences:
  "distinct (select (map Not (duplicated_from seen rs)) rs) \<and>
   set (select (map Not (duplicated_from seen rs)) rs) = set rs - set seen \<and>
   subseq (select (map Not (duplicated_from seen rs)) rs) rs"
proof (induction rs arbitrary: seen)
  case Nil
  then show ?case by simp
next
  case (Cons r rs)
  from Cons.IH [of "r # seen"] show ?case by (auto simp: subseq_Cons')
qed

lemma cells_col_select: "cells (col_select keep c) = select keep (cells c)"
  by (cases c) (simp_all add: map_select)

lemma col_len_col_select:
  "length keep = col_len c \<Longrightarrow> col_len (col_select keep c) = length (filter id keep)"
  by (cases c) (simp_all add: length_select)


lemma select_upt_Suc:
  "select ks [Suc m..<Suc m + length ks] = map Suc (select ks [m..<m + length ks])"
  using map_select [of Suc ks "[m..<m + length ks]"] by (simp add: map_Suc_upt)

lemma select_indices:
  "length xs = length keep \<Longrightarrow>
   select keep xs = map (\<lambda>j. xs ! (j - m)) (select keep [m..<m + length keep])"
proof (induction keep xs arbitrary: m rule: list_induct2')
  case (4 k ks x xs)
  then have len: "length xs = length ks" by simp
  have upt: "[m..<m + length (k # ks)] = m # [Suc m..<Suc m + length ks]"
    by (subst upt_rec) simp
  have sub: "\<And>j. j \<in> set (select ks [Suc m..<Suc m + length ks]) \<Longrightarrow> (x # xs) ! (j - m) = xs ! (j - Suc m)"
  proof -
    fix j assume "j \<in> set (select ks [Suc m..<Suc m + length ks])"
    then have "j \<in> set [Suc m..<Suc m + length ks]"
      by (auto simp: select_def dest: set_zip_leftD)
    then have "Suc m \<le> j" by auto
    then have "j - m = Suc (j - Suc m)" by simp
    then show "(x # xs) ! (j - m) = xs ! (j - Suc m)" by simp
  qed
  have "map (\<lambda>j. (x # xs) ! (j - m)) (select ks [Suc m..<Suc m + length ks]) =
        map (\<lambda>j. xs ! (j - Suc m)) (select ks [Suc m..<Suc m + length ks])"
    using sub by (simp cong: map_cong)
  also have "\<dots> = select ks xs" using "4.IH" [OF len, of "Suc m"] by simp
  finally show ?case by (simp only: upt select_Cons) simp
qed simp_all

lemma select_nth_indices:
  assumes "length xs = length keep"
  shows "select keep xs = map ((!) xs) (select keep [0..<length keep])"
  using select_indices [OF assms, of 0] by simp

lemma rows_select_aux:
  assumes "\<forall>c\<in>set cs. length c = length keep"
  shows "map (\<lambda>i. map (\<lambda>c. select keep c ! i) cs) [0..<length (filter id keep)] =
         select keep (map (\<lambda>i. map (\<lambda>c. c ! i) cs) [0..<length keep])"
proof -
  let ?idx = "select keep [0..<length keep]"
  have len: "length ?idx = length (filter id keep)" by (simp add: length_select)
  have "\<And>i c. c \<in> set cs \<Longrightarrow> i < length ?idx \<Longrightarrow> select keep c ! i = c ! (?idx ! i)"
    using assms select_nth_indices by (metis nth_map)
  then have "map (\<lambda>i. map (\<lambda>c. select keep c ! i) cs) [0..<length ?idx] =
             map (\<lambda>i. map (\<lambda>c. c ! (?idx ! i)) cs) [0..<length ?idx]"
    by (simp cong: map_cong)
  also have "\<dots> = map (\<lambda>j. map (\<lambda>c. c ! j) cs) ?idx"
    by (rule nth_equalityI) simp_all
  also have "\<dots> = select keep (map (\<lambda>i. map (\<lambda>c. c ! i) cs) [0..<length keep])"
    by (rule map_select)
  finally show ?thesis using len by simp
qed

lemma nrows_Cons [simp]: "nrows (hc # df) = col_len (snd hc)"
  by (simp add: nrows_def)

lemma nrows_Nil [simp]: "nrows [] = 0"
  by (simp add: nrows_def)

lemma wf_frame_iff: "wf_frame df \<longleftrightarrow> (\<forall>hc\<in>set df. col_len (snd hc) = nrows df)"
  by (simp add: wf_frame_def list_all_iff)

lemma length_rows [simp]: "length (rows df) = nrows df"
  by (simp add: rows_def)

lemma nrows_drop_duplicates:
  assumes "wf_frame df" and "df \<noteq> []"
  shows "nrows (drop_duplicates df) = length (filter id (map Not (duplicated (rows df))))"
proof -
  from assms(2) obtain hc df' where df: "df = hc # df'" by (cases df) auto
  have "length (map Not (duplicated (rows df))) = col_len (snd hc)"
    by (simp add: duplicated_def df)
  then show ?thesis
    by (simp add: drop_duplicates_def Let_def df col_len_col_select)
qed

lemma rows_drop_duplicates:
  assumes "wf_frame df"
  shows "rows (drop_duplicates df) = select (map Not (duplicated (rows df))) (rows df)"
proof (cases "df = []")
  case True
  then show ?thesis by (simp add: drop_duplicates_def rows_def)
next
  case False
  let ?keep = "map Not (duplicated (rows df))"
  let ?cs = "map (\<lambda>hc. cells (snd hc)) df"
  have lk: "length ?keep = nrows df" by (simp add: duplicated_def)
  have all: "\<forall>c\<in>set ?cs. length c = length ?keep"
    using assms lk by (auto simp: wf_frame_iff)
  have "rows (drop_duplicates df) =
        map (\<lambda>i. map (\<lambda>c. select ?keep c ! i) ?cs) [0..<length (filter id ?keep)]"
    using nrows_drop_duplicates [OF assms False]
    by (simp add: rows_def [of "drop_duplicates df"])
       (simp add: drop_duplicates_def Let_def cells_col_select comp_def)
  also have "\<dots> = select ?keep (map (\<lambda>i. map (\<lambda>c. c ! i) ?cs) [0..<length ?keep])"
    by (rule rows_select_aux [OF all])
  also have "map (\<lambda>i. map (\<lambda>c. c ! i) ?cs) [0..<length ?keep] = rows df"
    using lk by (simp add: rows_def comp_def)
  finally show ?thesis .
qed

subsection \<open>Shapes and errors through the pipeline\<close>

lemma col_len_to_datetime [simp]: "col_len (to_datetime to_dt c) = col_len c"
  by (simp add: to_datetime_def)

lemma col_len_to_numeric [simp]: "col_len (to_numeric to_num xs) = length xs"
  by (simp add: to_numeric_def Let_def)

lemma col_len_convert_numeric_col [simp]: "col_len (convert_numeric_col to_num c) = col_len c"
  by (cases c) (simp_all add: replace_sentinels_def)

lemma impute_col_shape:
  "impute_col c = Inr c' \<Longrightarrow> col_len c' = col_len c \<and> dtype_of c' = dtype_of c"
  by (cases c) (auto split: sum.splits)

lemma names_coerce [simp]:
  "map fst (coerce to_dt to_num df) = map mapped_header (map fst df)"
  by (simp add: coerce_def convert_numeric_def convert_dates_def rename_columns_def comp_def)

lemma lens_coerce [simp]:
  "map (\<lambda>hc. col_len (snd hc)) (coerce to_dt to_num df) = map (\<lambda>hc. col_len (snd hc)) df"
  by (simp add: coerce_def convert_numeric_def convert_dates_def rename_columns_def comp_def)

lemma length_coerce [simp]: "length (coerce to_dt to_num df) = length df"
  by (simp add: coerce_def convert_numeric_def convert_dates_def rename_columns_def)

lemma impute_shape:
  "impute df = Inr df' \<Longrightarrow>
   map fst df' = map fst df \<and>
   map (\<lambda>hc. col_len (snd hc)) df' = map (\<lambda>hc. col_len (snd hc)) df \<and>
   map (\<lambda>hc. dtype_of (snd hc)) df' = map (\<lambda>hc. dtype_of (snd hc)) df"
proof (induction df arbitrary: df')
  case Nil
  then show ?case by simp
next
  case (Cons hc df)
  from Cons.prems obtain c rest where
    c: "impute_col (snd hc) = Inr c" and rest: "impute df = Inr rest" and
    df': "df' = (fst hc, c) # rest"
    by (auto split: sum.splits)
  from Cons.IH [OF rest] impute_col_shape [OF c] df' show ?case by simp
qed

lemma impute_nth:
  "impute df = Inr df' \<Longrightarrow> i < length df \<Longrightarrow>
   impute_col (snd (df ! i)) = Inr (snd (df' ! i)) \<and> fst (df' ! i) = fst (df ! i)"
proof (induction df arbitrary: df' i)
  case Nil
  then show ?case by simp
next
  case (Cons hc df)
  from Cons.prems(1) obtain c rest where
    c: "impute_col (snd hc) = Inr c" and rest: "impute df = Inr rest" and
    df': "df' = (fst hc, c) # rest"
    by (auto split: sum.splits)
  show ?case
  proof (cases i)
    case 0
    then show ?thesis using c df' by simp
  next
    case (Suc k)
    then show ?thesis using Cons.IH [OF rest, of k] Cons.prems(2) df' by simp
  qed
qed

lemma length_impute: "impute df = Inr df' \<Longrightarrow> length df' = length df"
  using impute_shape [of df df'] by (metis length_map)

lemma impute_error_iff:
  "impute df = Inl e \<longleftrightarrow> (\<exists>hc\<in>set df. impute_col (snd hc) = Inl e)"
proof (induction df)
  case Nil
  then show ?case by simp
next
  case (Cons hc df)
  have one: "\<And>c e e'. impute_col c = Inl e \<Longrightarrow> impute_col c = Inl e' \<Longrightarrow> e = e'" by simp
  show ?case
  proof (cases "impute_col (snd hc)")
    case (Inl e0)
    have "e0 = ModeLookupError"
      using Inl by (cases "snd hc") (auto simp: first_mode_error_iff split: sum.splits)
    moreover have "\<And>c. c \<in> snd ` set df \<Longrightarrow> impute_col c = Inl e \<Longrightarrow> e = ModeLookupError"
    proof -
      fix c assume "impute_col c = Inl e"
      then show "e = ModeLookupError"
        by (cases c) (auto simp: first_mode_error_iff split: sum.splits)
    qed
    ultimately show ?thesis using Inl by auto
  next
    case (Inr c)
    then show ?thesis using Cons.IH by (auto split: sum.splits)
  qed
qed

lemma impute_success_iff:
  "(\<exists>df'. impute df = Inr df') \<longleftrightarrow> (\<forall>hc\<in>set df. \<exists>c. impute_col (snd hc) = Inr c)"
proof -
  have "(\<exists>df'. impute df = Inr df') \<longleftrightarrow> \<not> (\<exists>e. impute df = Inl e)"
    by (cases "impute df") auto
  also have "\<dots> \<longleftrightarrow> (\<forall>hc\<in>set df. \<not> (\<exists>e. impute_col (snd hc) = Inl e))"
    by (auto simp: impute_error_iff)
  also have "\<dots> \<longleftrightarrow> (\<forall>hc\<in>set df. \<exists>c. impute_col (snd hc) = Inr c)"
    by (metis sum.exhaust sum.distinct(1))
  finally show ?thesis .
qed

lemma all_missing_iff:
  "list_all (\<lambda>v. v = NaN) (cells (DateCol xs)) \<longleftrightarrow> non_missing xs = []"
  "list_all (\<lambda>v. v = NaN) (cells (ObjCol ys)) \<longleftrightarrow> non_missing ys = []"
  "list_all (\<lambda>v. v = NaN) (cells (FloatCol zs)) \<longleftrightarrow> non_missing zs = []"
  "list_all (\<lambda>v. v = NaN) (cells (BoolCol bs)) \<longleftrightarrow> bs = []"
  "list_all (\<lambda>v. v = NaN) (cells (IntCol ns)) \<longleftrightarrow> ns = []"
  by (auto simp: list_all_iff non_missing_empty_iff split: option.splits)

lemma impute_col_error_iff:
  "impute_col c = Inl e \<longleftrightarrow>
   e = ModeLookupError \<and> dtype_of c \<noteq> Int64 \<and> dtype_of c \<noteq> Float64 \<and>
   list_all (\<lambda>v. v = NaN) (cells c)"
proof (cases c)
  case (BoolCol bs)
  then show ?thesis
    using first_mode_error_iff [of "map Some bs" e] all_missing_iff(4) [of bs]
    by (auto split: sum.splits)
next
  case (DateCol xs)
  then show ?thesis
    using first_mode_error_iff [of xs e] all_missing_iff(1) [of xs]
    by (auto split: sum.splits)
next
  case (ObjCol xs)
  then show ?thesis
    using first_mode_error_iff [of xs e] all_missing_iff(2) [of xs]
    by (auto split: sum.splits)
qed simp_all

lemma names_drop_duplicates [simp]: "map fst (drop_duplicates df) = map fst df"
  by (simp add: drop_duplicates_def Let_def comp_def)

lemma length_drop_duplicates [simp]: "length (drop_duplicates df) = length df"
  by (simp add: drop_duplicates_def Let_def)

lemma dtype_col_select [simp]: "dtype_of (col_select keep c) = dtype_of c"
  by (cases c) simp_all

lemma wf_frame_cong:
  assumes "map (\<lambda>hc. col_len (snd hc)) df' = map (\<lambda>hc. col_len (snd hc)) df" and "wf_frame df"
  shows "wf_frame df'"
proof -
  have len: "length df' = length df" using assms(1) by (metis length_map)
  have nth: "\<And>i. i < length df \<Longrightarrow> col_len (snd (df' ! i)) = col_len (snd (df ! i))"
    using assms(1) len by (metis nth_map)
  have nr: "nrows df' = nrows df"
  proof (cases df)
    case Nil
    then show ?thesis using len by simp
  next
    case (Cons a as)
    then obtain b bs where "df' = b # bs" using len by (cases df') auto
    then show ?thesis using Cons nth [of 0] by simp
  qed
  show ?thesis
    unfolding wf_frame_iff
  proof
    fix hc assume "hc \<in> set df'"
    then obtain i where i: "i < length df'" "df' ! i = hc" by (auto simp: in_set_conv_nth)
    then have "col_len (snd hc) = col_len (snd (df ! i))" using nth len by auto
    also have "\<dots> = nrows df" using assms(2) i len by (simp add: wf_frame_iff)
    finally show "col_len (snd hc) = nrows df'" using nr by simp
  qed
qed

lemma wf_frame_coerce: "wf_frame df \<Longrightarrow> wf_frame (coerce to_dt to_num df)"
  by (rule wf_frame_cong [OF lens_coerce])

lemma wf_frame_impute: "impute df = Inr df' \<Longrightarrow> wf_frame df \<Longrightarrow> wf_frame df'"
  using impute_shape wf_frame_cong by blast

lemma clean_data_Inr_iff:
  "clean_data to_dt to_num df = Inr out \<longleftrightarrow>
   distinct (map mapped_header (map fst df)) \<and>
   (\<exists>imputed. impute (coerce to_dt to_num df) = Inr imputed \<and>
      out = \<lparr> cleaned_data = drop_duplicates imputed,
              metadata_report = make_metadata (map fst df) (drop_duplicates imputed) \<rparr>)"
  by (auto simp: clean_data_def Let_def rename_columns_def comp_def split: sum.splits)

lemma clean_data_Inl_iff:
  "clean_data to_dt to_num df = Inl e \<longleftrightarrow>
   (if distinct (map mapped_header (map fst df))
    then impute (coerce to_dt to_num df) = Inl e
    else e = DuplicateLabelError)"
  by (auto simp: clean_data_def Let_def rename_columns_def comp_def split: sum.splits)

lemma length_replace_sentinels [simp]: "length (replace_sentinels xs) = length xs"
  by (simp add: replace_sentinels_def)

lemma fillna_Some_eq:
  "fillna (Some m) xs = map (\<lambda>x. case x of None \<Rightarrow> Some m | Some v \<Rightarrow> Some v) xs"
  by (simp add: fillna_def)

lemma no_NaN_filled:
  "NaN \<notin> set (cells (DateCol (fillna (Some m) xs)))"
  "NaN \<notin> set (cells (ObjCol (fillna (Some s) ys)))"
  "NaN \<notin> set (cells (BoolCol bs))"
  by (auto simp: fillna_def split: option.splits)

subsection \<open>Missing cells after imputation and selection\<close>

lemma fillna_None [simp]: "fillna None xs = xs"
  by (simp add: fillna_def option.case_eq_if map_idI)

lemma set_select_subset: "set (select keep xs) \<subseteq> set xs"
  by (auto simp: select_def dest: set_zip_leftD)

lemma col_select_all_missing:
  "list_all (\<lambda>v. v = NaN) (cells c) \<Longrightarrow> list_all (\<lambda>v. v = NaN) (cells (col_select keep c))"
  using set_select_subset [of keep "cells c"] by (auto simp: list_all_iff cells_col_select)

lemma col_select_no_missing:
  "NaN \<notin> set (cells c) \<Longrightarrow> NaN \<notin> set (cells (col_select keep c))"
  using set_select_subset [of keep "cells c"] by (auto simp: cells_col_select)

lemma drop_duplicates_nth:
  "i < length df \<Longrightarrow>
   drop_duplicates df ! i =
     (fst (df ! i), col_select (map Not (duplicated (rows df))) (snd (df ! i)))"
  by (simp add: drop_duplicates_def Let_def)

lemma impute_col_missing:
  assumes "impute_col c = Inr c'"
  shows "NaN \<notin> set (cells c') \<or> (list_all (\<lambda>v. v = NaN) (cells c) \<and> c' = c)"
proof (cases c)
  case (IntCol ns)
  then show ?thesis using assms by auto
next
  case (FloatCol xs)
  show ?thesis
  proof (cases "mean xs")
    case None
    then have "non_missing xs = []" by (simp add: mean_def Let_def split: if_splits)
    then show ?thesis using assms FloatCol None all_missing_iff(3) [of xs] by auto
  next
    case (Some m)
    then show ?thesis using assms FloatCol fillna_Some_no_missing [of m xs]
      by (auto split: option.splits)
  qed
next
  case (BoolCol bs)
  then show ?thesis using assms by (auto split: sum.splits)
next
  case (DateCol xs)
  then show ?thesis using assms fillna_Some_no_missing [of _ xs]
    by (auto split: sum.splits option.splits)
next
  case (ObjCol xs)
  then show ?thesis using assms fillna_Some_no_missing [of _ xs]
    by (auto split: sum.splits option.splits)
qed

lemma missing_count_zero_iff: "missing_count c = 0 \<longleftrightarrow> NaN \<notin> set (cells c)"
  by (auto simp: missing_count_def filter_empty_conv)

lemma coerce_nth:
  "i < length df \<Longrightarrow>
   coerce to_dt to_num df ! i =
     (if is_date_name (mapped_header (fst (df ! i)))
      then (mapped_header (fst (df ! i)), to_datetime to_dt (snd (df ! i)))
      else (mapped_header (fst (df ! i)), convert_numeric_col to_num (snd (df ! i))))"
  by (simp add: coerce_def convert_numeric_def convert_dates_def rename_columns_def to_datetime_def)

lemma to_numeric_all_missing:
  assumes "xs \<noteq> []" and "\<forall>s. Some s \<in> set xs \<longrightarrow> s \<in> set sentinels \<or> to_num s = None"
  shows "to_numeric to_num (replace_sentinels xs) = FloatCol (replicate (length xs) None)"
proof -
  let ?ys = "map (\<lambda>x. case x of None \<Rightarrow> None | Some s \<Rightarrow> to_num s) (replace_sentinels xs)"
  have "\<And>x. x \<in> set xs \<Longrightarrow>
     (case (case x of None \<Rightarrow> None | Some s \<Rightarrow> if s \<in> set sentinels then None else Some s)
      of None \<Rightarrow> None | Some s \<Rightarrow> to_num s) = None"
    using assms(2) by (auto split: option.splits)
  then have ys: "?ys = replicate (length xs) None"
    by (simp add: replace_sentinels_def map_replicate_const [symmetric] cong: map_cong)
  have "\<not> list_all is_int_cell ?ys" using assms(1) by (simp add: ys list_all_iff)
  then show ?thesis using ys by (simp add: to_numeric_def Let_def)
qed

subsection \<open>One column through the numeric pass and the imputation\<close>


lemma impute_col_mean:
  "(non_missing xs \<noteq> [] \<longrightarrow>
      (let \<mu> = sum_list (non_missing xs) / of_nat (length (non_missing xs));
           filled = map (\<lambda>x. case x of None \<Rightarrow> Some \<mu> | Some v \<Rightarrow> Some v) xs
       in mean xs = Some \<mu> \<and>
          impute_col (FloatCol xs) = Inr (FloatCol filled) \<and>
          None \<notin> set filled \<and>
          mean filled = Some \<mu>)) \<and>
   impute_col (IntCol ns) = Inr (IntCol ns) \<and> NaN \<notin> set (cells (IntCol ns))"
proof -
  have "non_missing xs \<noteq> [] \<longrightarrow>
      (let \<mu> = sum_list (non_missing xs) / of_nat (length (non_missing xs));
           filled = map (\<lambda>x. case x of None \<Rightarrow> Some \<mu> | Some v \<Rightarrow> Some v) xs
       in mean xs = Some \<mu> \<and>
          impute_col (FloatCol xs) = Inr (FloatCol filled) \<and>
          None \<notin> set filled \<and>
          mean filled = Some \<mu>)"
  proof
    assume ne: "non_missing xs \<noteq> []"
    define \<mu> where "\<mu> = sum_list (non_missing xs) / of_nat (length (non_missing xs))"
    have m: "mean xs = Some \<mu>" using ne by (simp add: mean_def Let_def \<mu>_def)
    have filled: "map (\<lambda>x. case x of None \<Rightarrow> Some \<mu> | Some v \<Rightarrow> Some v) xs = fillna (mean xs) xs"
      by (simp add: fillna_def m)
    have "None \<notin> set (fillna (mean xs) xs)" using m fillna_Some_no_missing by metis
    moreover have "mean (fillna (mean xs) xs) = Some \<mu>" by (rule mean_fillna [OF ne m])
    ultimately show "(let \<mu> = sum_list (non_missing xs) / of_nat (length (non_missing xs));
           filled = map (\<lambda>x. case x of None \<Rightarrow> Some \<mu> | Some v \<Rightarrow> Some v) xs
       in mean xs = Some \<mu> \<and>
          impute_col (FloatCol xs) = Inr (FloatCol filled) \<and>
          None \<notin> set filled \<and>
          mean filled = Some \<mu>)"
      using m filled unfolding Let_def \<mu>_def [symmetric] by simp
  qed
  then show ?thesis by auto
qed

lemma impute_col_mode:
  "(non_missing xs \<noteq> [] \<longrightarrow>
      (\<exists>m. smallest_mode (non_missing xs) m \<and>
           impute_col (DateCol xs) =
             Inr (DateCol (map (\<lambda>x. case x of None \<Rightarrow> Some m | Some v \<Rightarrow> Some v) xs)) \<and>
           NaN \<notin> set (cells (DateCol (map (\<lambda>x. case x of None \<Rightarrow> Some m | Some v \<Rightarrow> Some v) xs))))) \<and>
   (non_missing ys \<noteq> [] \<longrightarrow>
      (\<exists>m. smallest_mode (non_missing ys) m \<and>
           impute_col (ObjCol ys) =
             Inr (ObjCol (map (\<lambda>x. case x of None \<Rightarrow> Some m | Some v \<Rightarrow> Some v) ys)) \<and>
           NaN \<notin> set (cells (ObjCol (map (\<lambda>x. case x of None \<Rightarrow> Some m | Some v \<Rightarrow> Some v) ys))))) \<and>
   (bs \<noteq> [] \<longrightarrow> impute_col (BoolCol bs) = Inr (BoolCol bs) \<and> NaN \<notin> set (cells (BoolCol bs)))"
proof (intro conjI impI)
  assume "non_missing xs \<noteq> []"
  from first_mode_smallest [OF this] obtain m where
    "first_mode xs = Inr m" "smallest_mode (non_missing xs) m" by blast
  then show "\<exists>m. smallest_mode (non_missing xs) m \<and>
           impute_col (DateCol xs) =
             Inr (DateCol (map (\<lambda>x. case x of None \<Rightarrow> Some m | Some v \<Rightarrow> Some v) xs)) \<and>
           NaN \<notin> set (cells (DateCol (map (\<lambda>x. case x of None \<Rightarrow> Some m | Some v \<Rightarrow> Some v) xs)))"
    using no_NaN_filled(1) [of m xs] by (auto simp: fillna_Some_eq)
next
  assume "non_missing ys \<noteq> []"
  from first_mode_smallest [OF this] obtain m where
    "first_mode ys = Inr m" "smallest_mode (non_missing ys) m" by blast
  then show "\<exists>m. smallest_mode (non_missing ys) m \<and>
           impute_col (ObjCol ys) =
             Inr (ObjCol (map (\<lambda>x. case x of None \<Rightarrow> Some m | Some v \<Rightarrow> Some v) ys)) \<and>
           NaN \<notin> set (cells (ObjCol (map (\<lambda>x. case x of None \<Rightarrow> Some m | Some v \<Rightarrow> Some v) ys)))"
    using no_NaN_filled(2) [of m ys] by (auto simp: fillna_Some_eq)
next
  assume "bs \<noteq> []"
  then have "non_missing (map Some bs) \<noteq> []" by simp
  from first_mode_smallest [OF this] obtain m where "first_mode (map Some bs) = Inr m" by blast
  then show "impute_col (BoolCol bs) = Inr (BoolCol bs)" by simp
next
  show "NaN \<notin> set (cells (BoolCol bs))" by (rule no_NaN_filled)
qed

subsection \<open>One column through the whole pipeline\<close>

lemma clean_data_nth:
  assumes "clean_data to_dt to_num df = Inr out" and "i < length df"
  shows "\<exists>imputed. impute (coerce to_dt to_num df) = Inr imputed \<and>
           cleaned_data out = drop_duplicates imputed \<and>
           impute_col (snd (coerce to_dt to_num df ! i)) = Inr (snd (imputed ! i)) \<and>
           fst (imputed ! i) = mapped_header (fst (df ! i)) \<and>
           cleaned_data out ! i =
             (mapped_header (fst (df ! i)),
              col_select (map Not (duplicated (rows imputed))) (snd (imputed ! i)))"
proof -
  from assms(1) obtain imputed where imp: "impute (coerce to_dt to_num df) = Inr imputed"
    and out: "cleaned_data out = drop_duplicates imputed"
    by (auto simp: clean_data_Inr_iff)
  have i: "i < length (coerce to_dt to_num df)" using assms(2) by simp
  have li: "i < length imputed" using length_impute [OF imp] i by simp
  have nm: "fst (coerce to_dt to_num df ! i) = mapped_header (fst (df ! i))"
    using assms(2) by (simp add: coerce_nth)
  from impute_nth [OF imp i] nm
  have "impute_col (snd (coerce to_dt to_num df ! i)) = Inr (snd (imputed ! i))"
    and "fst (imputed ! i) = mapped_header (fst (df ! i))" by simp_all
  then show ?thesis using imp out drop_duplicates_nth [OF li] by auto
qed

lemma dtype_convert_numeric_col: "dtype_of (convert_numeric_col to_num c) \<noteq> Object"
  by (cases c) (simp_all add: to_numeric_def Let_def)

lemma dtype_coerce_nth:
  "i < length df \<Longrightarrow> dtype_of (snd (coerce to_dt to_num df ! i)) \<noteq> Object"
  by (simp add: coerce_nth dtype_convert_numeric_col to_datetime_def)


text \<open>The defining equations that evaluate the pipeline on a concrete frame.\<close>

lemmas run_defs =
  clean_data_def coerce_def rename_columns_def mapped_header_def header_mapping_def
  degree_sign_def convert_dates_def is_date_name_def lower_def lower_char_def
  char_of_eq_iff convert_numeric_def replace_sentinels_def sentinels_def to_numeric_def
  unsigned_number_def digit_val_def fillna_def mean_def non_missing_def
  drop_duplicates_def rows_def nrows_def duplicated_def select_def make_metadata_def
  missing_count_def nunique_def mode_def first_mode_def to_datetime_def

section \<open>The claims\<close>

text \<open>
  Claim C1, as stated, fails: the report is built from the frame after imputation and
  after deduplication. For the temperature column 20.0, N/A, 22.0 the coerced column
  has one missing cell and two distinct values, but the report records no missing
  cell and three distinct values (20, 21 and 22).
\<close>

theorem metadata_counts_counterexample:
  "map (\<lambda>hc. missing_count (snd hc)) (coerce plain_datetime plain_number temp_frame_loaded) = [1] \<and>
   map (\<lambda>hc. nunique (snd hc)) (coerce plain_datetime plain_number temp_frame_loaded) = [2] \<and>
   clean_data plain_datetime plain_number temp_frame_loaded =
     Inr \<lparr> cleaned_data = [(''Temperature ('' @ degree_sign @ ''C)'', FloatCol [Some 20, Some 21, Some 22])],
           metadata_report = \<lparr> index_labels = [''Temperature ('' @ degree_sign @ ''C)''],
             original_headers = [''Temp ('' @ degree_sign @ ''C)''],
             mapped_headers = [''Temperature ('' @ degree_sign @ ''C)''],
             column_types = [Float64], missing_values = [0], unique_values = [3] \<rparr> \<rparr> \<and>
   map (\<lambda>hc. missing_count (snd hc)) (coerce plain_datetime plain_number temp_frame_text) = [1] \<and>
   map (\<lambda>hc. nunique (snd hc)) (coerce plain_datetime plain_number temp_frame_text) = [2] \<and>
   clean_data plain_datetime plain_number temp_frame_text =
     clean_data plain_datetime plain_number temp_frame_loaded"
  by (simp add: temp_frame_loaded_def temp_frame_text_def run_defs)

text \<open>
  Claim C1, amended. Whenever \<^verbatim>\<open>clean_data\<close> succeeds, the report's missing-value
  count and distinct-value count of each column are those of the cleaned data, that
  is of the imputed and deduplicated frame; the missing-value count of a column is
  zero unless the column was entirely missing after coercion.
\<close>

theorem metadata_counts_final:
  "clean_data to_dt to_num df = Inr out \<longrightarrow>
     (\<exists>imputed. impute (coerce to_dt to_num df) = Inr imputed \<and>
        cleaned_data out = drop_duplicates imputed) \<and>
     index_labels (metadata_report out) = map fst (cleaned_data out) \<and>
     missing_values (metadata_report out) = map (\<lambda>hc. missing_count (snd hc)) (cleaned_data out) \<and>
     unique_values (metadata_report out) = map (\<lambda>hc. nunique (snd hc)) (cleaned_data out) \<and>
     (\<forall>i<length df.
        missing_values (metadata_report out) ! i = 0 \<or>
        list_all (\<lambda>v. v = NaN) (cells (snd (coerce to_dt to_num df ! i))))"
proof
  assume "clean_data to_dt to_num df = Inr out"
  then obtain imputed where imp: "impute (coerce to_dt to_num df) = Inr imputed"
    and out: "out = \<lparr> cleaned_data = drop_duplicates imputed,
              metadata_report = make_metadata (map fst df) (drop_duplicates imputed) \<rparr>"
    by (auto simp: clean_data_Inr_iff)
  have len: "length imputed = length df" using length_impute [OF imp] by simp
  have zero: "\<forall>i<length df.
        missing_values (metadata_report out) ! i = 0 \<or>
        list_all (\<lambda>v. v = NaN) (cells (snd (coerce to_dt to_num df ! i)))"
  proof (intro allI impI)
    fix i assume i: "i < length df"
    then have li: "i < length imputed" using len by simp
    let ?c = "snd (coerce to_dt to_num df ! i)"
    from impute_nth [OF imp, of i] i have ic: "impute_col ?c = Inr (snd (imputed ! i))" by simp
    have mv: "missing_values (metadata_report out) ! i =
        missing_count (col_select (map Not (duplicated (rows imputed))) (snd (imputed ! i)))"
      using li by (simp add: out make_metadata_def drop_duplicates_nth)
    from impute_col_missing [OF ic]
    show "missing_values (metadata_report out) ! i = 0 \<or> list_all (\<lambda>v. v = NaN) (cells ?c)"
    proof
      assume "NaN \<notin> set (cells (snd (imputed ! i)))"
      from col_select_no_missing [OF this] show ?thesis
        by (simp add: mv missing_count_zero_iff)
    next
      assume "list_all (\<lambda>v. v = NaN) (cells ?c) \<and> snd (imputed ! i) = ?c"
      then show ?thesis by simp
    qed
  qed
  show "(\<exists>imputed. impute (coerce to_dt to_num df) = Inr imputed \<and>
        cleaned_data out = drop_duplicates imputed) \<and>
     index_labels (metadata_report out) = map fst (cleaned_data out) \<and>
     missing_values (metadata_report out) = map (\<lambda>hc. missing_count (snd hc)) (cleaned_data out) \<and>
     unique_values (metadata_report out) = map (\<lambda>hc. nunique (snd hc)) (cleaned_data out) \<and>
     (\<forall>i<length df.
        missing_values (metadata_report out) ! i = 0 \<or>
        list_all (\<lambda>v. v = NaN) (cells (snd (coerce to_dt to_num df ! i))))"
    using imp zero by (simp add: out make_metadata_def)
qed

theorem metadata_counts_final_witness:
  "clean_data plain_datetime plain_number gap_frame =
     Inr \<lparr> cleaned_data = [(''Result Value'', FloatCol [Some 4, Some (14 / 3), Some 6]),
                            (''Temp'', IntCol [20, 20, 20])],
           metadata_report = \<lparr> index_labels = [''Result Value'', ''Temp''],
             original_headers = [''Result_Value'', ''Temp''],
             mapped_headers = [''Result Value'', ''Temp''],
             column_types = [Float64, Int64], missing_values = [0, 0], unique_values = [3, 1] \<rparr> \<rparr> \<and>
   map (\<lambda>hc. missing_count (snd hc))
     [(''Result Value'', FloatCol [Some 4, Some (14 / 3), Some 6]), (''Temp'', IntCol [20, 20, 20])] = [0, 0] \<and>
   map (\<lambda>hc. nunique (snd hc))
     [(''Result Value'', FloatCol [Some 4, Some (14 / 3), Some 6]), (''Temp'', IntCol [20, 20, 20])] = [3, 1]"
proof -
  let ?out = "\<lparr> cleaned_data = [(''Result Value'', FloatCol [Some 4, Some (14 / 3), Some 6]),
                            (''Temp'', IntCol [20, 20, 20])],
           metadata_report = \<lparr> index_labels = [''Result Value'', ''Temp''],
             original_headers = [''Result_Value'', ''Temp''],
             mapped_headers = [''Result Value'', ''Temp''],
             column_types = [Float64, Int64], missing_values = [0, 0], unique_values = [3, 1] \<rparr> \<rparr>"
  have run: "clean_data plain_datetime plain_number gap_frame = Inr ?out"
    by (simp add: gap_frame_def run_defs)
  from metadata_counts_final [of plain_datetime plain_number gap_frame ?out] run
  have "missing_values (metadata_report ?out) = map (\<lambda>hc. missing_count (snd hc)) (cleaned_data ?out) \<and>
        unique_values (metadata_report ?out) = map (\<lambda>hc. nunique (snd hc)) (cleaned_data ?out)"
    by blast
  then show ?thesis using run by simp
qed

text \<open>
  Claim C2, as stated, fails: on the sentinel-only scenario both columns are entirely
  missing after coercion and \<^verbatim>\<open>clean_data\<close> returns a result, with the missing cells
  left in the output; no error is raised.
\<close>

theorem empty_column_counterexample:
  "coerce plain_datetime plain_number sentinel_frame =
     [(''Sample ID'', FloatCol [None, None]), (''Result Value'', FloatCol [None, None])] \<and>
   clean_data plain_datetime plain_number sentinel_frame =
     Inr \<lparr> cleaned_data = [(''Sample ID'', FloatCol [None]), (''Result Value'', FloatCol [None])],
           metadata_report = \<lparr> index_labels = [''Sample ID'', ''Result Value''],
             original_headers = [''Sample_ID'', ''Result_Value''],
             mapped_headers = [''Sample ID'', ''Result Value''],
             column_types = [Float64, Float64], missing_values = [1, 1], unique_values = [0, 0] \<rparr> \<rparr>"
  by (simp add: sentinel_frame_def run_defs)

text \<open>
  Claim C2, amended. With distinct mapped headers, \<^verbatim>\<open>clean_data\<close> fails exactly when
  some column that is entirely missing after coercion has a storage type that is not
  numeric (a date column without a parseable cell), and it then fails with the lookup
  error of \<^verbatim>\<open>mode()[0]\<close>. A column that is entirely missing after coercion and does
  not make the run fail is numeric and stays entirely missing in the cleaned data.
\<close>

theorem empty_column_failure:
  assumes "distinct (map mapped_header (map fst df))"
  shows "((\<exists>e. clean_data to_dt to_num df = Inl e) \<longleftrightarrow>
          (\<exists>hc\<in>set (coerce to_dt to_num df).
              dtype_of (snd hc) \<noteq> Int64 \<and> dtype_of (snd hc) \<noteq> Float64 \<and>
              list_all (\<lambda>v. v = NaN) (cells (snd hc)))) \<and>
     (\<forall>e. clean_data to_dt to_num df = Inl e \<longrightarrow> e = ModeLookupError) \<and>
     (\<forall>out i. clean_data to_dt to_num df = Inr out \<and> i < length df \<and>
         list_all (\<lambda>v. v = NaN) (cells (snd (coerce to_dt to_num df ! i))) \<longrightarrow>
         (dtype_of (snd (coerce to_dt to_num df ! i)) = Int64 \<or>
          dtype_of (snd (coerce to_dt to_num df ! i)) = Float64) \<and>
         list_all (\<lambda>v. v = NaN) (cells (snd (cleaned_data out ! i))))"
proof -
  have inl: "\<And>e. clean_data to_dt to_num df = Inl e \<longleftrightarrow> impute (coerce to_dt to_num df) = Inl e"
    using assms by (simp add: clean_data_Inl_iff)
  have one: "(\<exists>e. clean_data to_dt to_num df = Inl e) \<longleftrightarrow>
          (\<exists>hc\<in>set (coerce to_dt to_num df).
              dtype_of (snd hc) \<noteq> Int64 \<and> dtype_of (snd hc) \<noteq> Float64 \<and>
              list_all (\<lambda>v. v = NaN) (cells (snd hc)))"
    by (auto simp: inl impute_error_iff impute_col_error_iff)
  have two: "\<forall>e. clean_data to_dt to_num df = Inl e \<longrightarrow> e = ModeLookupError"
    by (auto simp: inl impute_error_iff impute_col_error_iff)
  have three: "\<forall>out i. clean_data to_dt to_num df = Inr out \<and> i < length df \<and>
         list_all (\<lambda>v. v = NaN) (cells (snd (coerce to_dt to_num df ! i))) \<longrightarrow>
         (dtype_of (snd (coerce to_dt to_num df ! i)) = Int64 \<or>
          dtype_of (snd (coerce to_dt to_num df ! i)) = Float64) \<and>
         list_all (\<lambda>v. v = NaN) (cells (snd (cleaned_data out ! i)))"
  proof (intro allI impI)
    fix out i
    assume h: "clean_data to_dt to_num df = Inr out \<and> i < length df \<and>
         list_all (\<lambda>v. v = NaN) (cells (snd (coerce to_dt to_num df ! i)))"
    let ?c = "snd (coerce to_dt to_num df ! i)"
    from h obtain imputed where imp: "impute (coerce to_dt to_num df) = Inr imputed"
      and out: "cleaned_data out = drop_duplicates imputed"
      by (auto simp: clean_data_Inr_iff)
    have i: "i < length (coerce to_dt to_num df)" using h by simp
    have li: "i < length imputed" using length_impute [OF imp] i by simp
    from impute_nth [OF imp i] have ic: "impute_col ?c = Inr (snd (imputed ! i))" by simp
    then have ty: "dtype_of ?c = Int64 \<or> dtype_of ?c = Float64"
      using h impute_col_error_iff [of ?c ModeLookupError] by auto
    have "snd (imputed ! i) = ?c"
    proof (cases ?c)
      case (IntCol ns)
      then show ?thesis using ic by simp
    next
      case (FloatCol xs)
      then have "non_missing xs = []" using h all_missing_iff(3) [of xs] by simp
      then have "mean xs = None" by (simp add: mean_def)
      then show ?thesis using ic FloatCol by simp
    qed (use ty in simp_all)
    then have "list_all (\<lambda>v. v = NaN) (cells (snd (imputed ! i)))" using h by simp
    from col_select_all_missing [OF this]
    have "list_all (\<lambda>v. v = NaN) (cells (snd (cleaned_data out ! i)))"
      by (simp add: out drop_duplicates_nth [OF li])
    then show "(dtype_of ?c = Int64 \<or> dtype_of ?c = Float64) \<and>
         list_all (\<lambda>v. v = NaN) (cells (snd (cleaned_data out ! i)))"
      using ty by simp
  qed
  show ?thesis using one two three by blast
qed

theorem empty_column_failure_witness:
  "distinct (map mapped_header (map fst undated_frame)) \<and>
   coerce plain_datetime plain_number undated_frame =
     [(''Test Date'', DateCol [None, None]), (''Result Value'', FloatCol [Some 1, Some 2])] \<and>
   clean_data plain_datetime plain_number undated_frame = Inl ModeLookupError \<and>
   distinct (map mapped_header (map fst sentinel_frame)) \<and>
   (\<exists>out. clean_data plain_datetime plain_number sentinel_frame = Inr out \<and>
      list_all (\<lambda>v. v = NaN) (cells (snd (cleaned_data out ! 1))))"
proof -
  have d1: "distinct (map mapped_header (map fst undated_frame))"
    by (simp add: undated_frame_def run_defs)
  have d2: "distinct (map mapped_header (map fst sentinel_frame))"
    by (simp add: sentinel_frame_def run_defs)
  have co: "coerce plain_datetime plain_number undated_frame =
     [(''Test Date'', DateCol [None, None]), (''Result Value'', FloatCol [Some 1, Some 2])]"
    by (simp add: undated_frame_def run_defs)
  have "\<exists>hc\<in>set (coerce plain_datetime plain_number undated_frame).
              dtype_of (snd hc) \<noteq> Int64 \<and> dtype_of (snd hc) \<noteq> Float64 \<and>
              list_all (\<lambda>v. v = NaN) (cells (snd hc))"
    by (simp add: co)
  with empty_column_failure [OF d1, of plain_datetime plain_number]
  have fail: "clean_data plain_datetime plain_number undated_frame = Inl ModeLookupError"
    by blast
  have co2: "coerce plain_datetime plain_number sentinel_frame =
     [(''Sample ID'', FloatCol [None, None]), (''Result Value'', FloatCol [None, None])]"
    by (simp add: sentinel_frame_def run_defs)
  have "\<not> (\<exists>hc\<in>set (coerce plain_datetime plain_number sentinel_frame).
              dtype_of (snd hc) \<noteq> Int64 \<and> dtype_of (snd hc) \<noteq> Float64 \<and>
              list_all (\<lambda>v. v = NaN) (cells (snd hc)))"
    by (simp add: co2)
  with empty_column_failure [OF d2, of plain_datetime plain_number]
  have "\<not> (\<exists>e. clean_data plain_datetime plain_number sentinel_frame = Inl e)" by blast
  then obtain out where out: "clean_data plain_datetime plain_number sentinel_frame = Inr out"
    by (cases "clean_data plain_datetime plain_number sentinel_frame") auto
  have "1 < length sentinel_frame \<and>
     list_all (\<lambda>v. v = NaN) (cells (snd (coerce plain_datetime plain_number sentinel_frame ! 1)))"
    by (simp add: co2) (simp add: sentinel_frame_def)
  with empty_column_failure [OF d2, of plain_datetime plain_number] out
  have "list_all (\<lambda>v. v = NaN) (cells (snd (cleaned_data out ! 1)))" by blast
  then show ?thesis using d1 d2 co fail out by blast
qed

text \<open>
  Claim C3 on a frame without missing cells, without duplicate rows and with standard
  headers: the text column \<^verbatim>\<open>Sample ID\<close> does not come back unchanged, every cell of
  it is missing in the cleaned data.
\<close>

theorem clean_text_column_lost:
  "list_all (\<lambda>hc. NaN \<notin> set (cells (snd hc))) clean_frame \<and>
   distinct (rows clean_frame) \<and>
   map mapped_header (map fst clean_frame) = map fst clean_frame \<and>
   clean_data plain_datetime plain_number clean_frame =
     Inr \<lparr> cleaned_data = [(''Sample ID'', FloatCol [None, None]),
                            (''Result Value'', FloatCol [Some (3 / 2), Some (5 / 2)])],
           metadata_report = \<lparr> index_labels = [''Sample ID'', ''Result Value''],
             original_headers = [''Sample ID'', ''Result Value''],
             mapped_headers = [''Sample ID'', ''Result Value''],
             column_types = [Float64, Float64], missing_values = [2, 0], unique_values = [0, 2] \<rparr> \<rparr>"
  by (simp add: clean_frame_def run_defs Let_def)

text \<open>
  Claim C4. A text column whose mapped name does not contain \<^verbatim>\<open>date\<close>, none of
  whose cells parses as a number and which holds a value that is no sentinel, is
  coerced to a \<^verbatim>\<open>float64\<close> column of missing cells; its mean is missing, so the
  imputation leaves it as it is and raises nothing; in every result of
  \<^verbatim>\<open>clean_data\<close> all cells of the column are missing, and \<^verbatim>\<open>clean_data\<close> does
  return a result when the mapped headers are distinct and the other columns impute.
\<close>

theorem text_column_erased:
  assumes "i < length df" and "df ! i = (h, ObjCol xs)"
    and "\<not> is_date_name (mapped_header h)"
    and "\<forall>s. Some s \<in> set xs \<longrightarrow> s \<in> set sentinels \<or> to_num s = None"
    and "\<exists>s. Some s \<in> set xs \<and> s \<notin> set sentinels"
  shows "coerce to_dt to_num df ! i = (mapped_header h, FloatCol (replicate (length xs) None)) \<and>
     mean (replicate (length xs) None) = None \<and>
     impute_col (snd (coerce to_dt to_num df ! i)) = Inr (FloatCol (replicate (length xs) None)) \<and>
     (\<forall>out. clean_data to_dt to_num df = Inr out \<longrightarrow>
        fst (cleaned_data out ! i) = mapped_header h \<and>
        dtype_of (snd (cleaned_data out ! i)) = Float64 \<and>
        list_all (\<lambda>v. v = NaN) (cells (snd (cleaned_data out ! i)))) \<and>
     (distinct (map mapped_header (map fst df)) \<and>
      (\<forall>j<length df. j \<noteq> i \<longrightarrow> (\<exists>c. impute_col (snd (coerce to_dt to_num df ! j)) = Inr c))
      \<longrightarrow> (\<exists>out. clean_data to_dt to_num df = Inr out))"
proof -
  let ?c = "FloatCol (replicate (length xs) None)"
  have ne: "xs \<noteq> []" using assms(5) by auto
  have co: "coerce to_dt to_num df ! i = (mapped_header h, ?c)"
    using assms(1,2,3) to_numeric_all_missing [OF ne assms(4)] by (simp add: coerce_nth)
  have nm: "non_missing (replicate (length xs) (None :: rat option)) = []"
    by (simp add: non_missing_empty_iff)
  have mn: "mean (replicate (length xs) None) = None"
    using nm by (simp add: mean_def)
  have im: "impute_col (snd (coerce to_dt to_num df ! i)) = Inr ?c"
    using co mn by simp
  have outp: "\<forall>out. clean_data to_dt to_num df = Inr out \<longrightarrow>
        fst (cleaned_data out ! i) = mapped_header h \<and>
        dtype_of (snd (cleaned_data out ! i)) = Float64 \<and>
        list_all (\<lambda>v. v = NaN) (cells (snd (cleaned_data out ! i)))"
  proof (intro allI impI)
    fix out assume "clean_data to_dt to_num df = Inr out"
    then obtain imputed where imp: "impute (coerce to_dt to_num df) = Inr imputed"
      and out: "cleaned_data out = drop_duplicates imputed"
      by (auto simp: clean_data_Inr_iff)
    have li: "i < length imputed" using length_impute [OF imp] assms(1) by simp
    from impute_nth [OF imp, of i] assms(1) im co
    have ith: "imputed ! i = (mapped_header h, ?c)" by (simp add: prod_eq_iff)
    have all: "list_all (\<lambda>v. v = NaN) (cells ?c)" by (simp add: list_all_iff)
    show "fst (cleaned_data out ! i) = mapped_header h \<and>
        dtype_of (snd (cleaned_data out ! i)) = Float64 \<and>
        list_all (\<lambda>v. v = NaN) (cells (snd (cleaned_data out ! i)))"
      using col_select_all_missing [OF all] by (simp add: out drop_duplicates_nth [OF li] ith)
  qed
  have succ: "distinct (map mapped_header (map fst df)) \<and>
      (\<forall>j<length df. j \<noteq> i \<longrightarrow> (\<exists>c. impute_col (snd (coerce to_dt to_num df ! j)) = Inr c))
      \<longrightarrow> (\<exists>out. clean_data to_dt to_num df = Inr out)"
  proof
    assume h: "distinct (map mapped_header (map fst df)) \<and>
      (\<forall>j<length df. j \<noteq> i \<longrightarrow> (\<exists>c. impute_col (snd (coerce to_dt to_num df ! j)) = Inr c))"
    have "\<forall>hc\<in>set (coerce to_dt to_num df). \<exists>c. impute_col (snd hc) = Inr c"
    proof
      fix hc assume "hc \<in> set (coerce to_dt to_num df)"
      then obtain j where j: "j < length df" "coerce to_dt to_num df ! j = hc"
        by (auto simp: in_set_conv_nth)
      show "\<exists>c. impute_col (snd hc) = Inr c"
      proof (cases "j = i")
        case True
        then show ?thesis using im j by auto
      next
        case False
        then show ?thesis using h j by auto
      qed
    qed
    then obtain imputed where "impute (coerce to_dt to_num df) = Inr imputed"
      using impute_success_iff by blast
    then show "\<exists>out. clean_data to_dt to_num df = Inr out"
      using h by (simp add: clean_data_Inr_iff)
  qed
  show ?thesis using co mn im outp succ by blast
qed

theorem text_column_erased_witness:
  "0 < length notes_frame \<and>
   notes_frame ! 0 = (''Operator'', ObjCol [Some ''Kim'', Some ''NA'', Some ''Lee'']) \<and>
   \<not> is_date_name (mapped_header ''Operator'') \<and>
   plain_number ''Kim'' = None \<and> ''NA'' \<in> set sentinels \<and> plain_number ''Lee'' = None \<and>
   ''Kim'' \<notin> set sentinels \<and>
   distinct (map mapped_header (map fst notes_frame)) \<and>
   clean_data plain_datetime plain_number notes_frame =
     Inr \<lparr> cleaned_data = [(''Operator'', FloatCol [None, None, None]),
                            (''Result Value'', FloatCol [Some 1, Some 2, Some 3])],
           metadata_report = \<lparr> index_labels = [''Operator'', ''Result Value''],
             original_headers = [''Operator'', ''Result_Value''],
             mapped_headers = [''Operator'', ''Result Value''],
             column_types = [Float64, Float64], missing_values = [3, 0], unique_values = [0, 3] \<rparr> \<rparr>"
proof -
  have a: "0 < length notes_frame" by (simp add: notes_frame_def)
  have b: "notes_frame ! 0 = (''Operator'', ObjCol [Some ''Kim'', Some ''NA'', Some ''Lee''])"
    by (simp add: notes_frame_def)
  have c: "\<not> is_date_name (mapped_header ''Operator'')" by (simp add: run_defs)
  have d: "\<forall>s. Some s \<in> set [Some ''Kim'', Some ''NA'', Some ''Lee''] \<longrightarrow>
        s \<in> set sentinels \<or> plain_number s = None"
    by (auto simp: run_defs)
  have e: "\<exists>s. Some s \<in> set [Some ''Kim'', Some ''NA'', Some ''Lee''] \<and> s \<notin> set sentinels"
    by (auto simp: run_defs)
  have f: "distinct (map mapped_header (map fst notes_frame))"
    by (simp add: notes_frame_def run_defs)
  have run: "clean_data plain_datetime plain_number notes_frame =
     Inr \<lparr> cleaned_data = [(''Operator'', FloatCol [None, None, None]),
                            (''Result Value'', FloatCol [Some 1, Some 2, Some 3])],
           metadata_report = \<lparr> index_labels = [''Operator'', ''Result Value''],
             original_headers = [''Operator'', ''Result_Value''],
             mapped_headers = [''Operator'', ''Result Value''],
             column_types = [Float64, Float64], missing_values = [3, 0], unique_values = [0, 3] \<rparr> \<rparr>"
    by (simp add: notes_frame_def run_defs)
  from text_column_erased [OF a b c d e, of plain_datetime]
  have "coerce plain_datetime plain_number notes_frame ! 0 =
      (mapped_header ''Operator'', FloatCol (replicate (length [Some ''Kim'', Some ''NA'', Some ''Lee'']) None))"
    by blast
  moreover have "plain_number ''Kim'' = None \<and> ''NA'' \<in> set sentinels \<and>
      plain_number ''Lee'' = None \<and> ''Kim'' \<notin> set sentinels"
    by (simp add: run_defs)
  ultimately show ?thesis using a b c f run by blast
qed

text \<open>
  Claim C5, as stated, fails on the tie-break. In the date column 2, 1, NaT the values
  2 and 1 are tied and 2 occurs first, but the imputation of \<^verbatim>\<open>clean_data\<close> fills
  the missing cell with 1, and so the cleaned data holds 2, 1, 1.
\<close>

theorem mode_tie_break_counterexample:
  "first_occurrence_mode (non_missing [Some (2::int), Some 1, None]) = Some 2 \<and>
   coerce plain_datetime plain_number tie_frame =
     [(''Test Date'', DateCol [Some 2, Some 1, None]), (''Sample ID'', IntCol [1, 2, 3])] \<and>
   impute (coerce plain_datetime plain_number tie_frame) =
     Inr [(''Test Date'', DateCol [Some 2, Some 1, Some 1]), (''Sample ID'', IntCol [1, 2, 3])] \<and>
   clean_data plain_datetime plain_number tie_frame =
     Inr \<lparr> cleaned_data = [(''Test Date'', DateCol [Some 2, Some 1, Some 1]),
                            (''Sample ID'', IntCol [1, 2, 3])],
           metadata_report = \<lparr> index_labels = [''Test Date'', ''Sample ID''],
             original_headers = [''Test_Date'', ''Sample_ID''],
             mapped_headers = [''Test Date'', ''Sample ID''],
             column_types = [Datetime64, Int64], missing_values = [0, 0],
             unique_values = [2, 3] \<rparr> \<rparr>"
  by (simp add: tie_frame_def first_occurrence_mode_def run_defs Let_def)

text \<open>
  Claim C5, amended. After the type coercion no column is a text column, so a column
  that is not numeric is a date column or a boolean column. For such a column of the
  frame with at least one value, the imputation of \<^verbatim>\<open>clean_data\<close> replaces every
  missing cell with a most frequent value of the column and keeps the other cells;
  when several values are tied for most frequent, the least of the tied values is
  chosen. Neither the imputed column nor the column of the cleaned data has a missing
  cell. (A boolean column has no missing cell and is kept as it is.)
\<close>

theorem mode_imputation:
  assumes "i < length df"
  shows "dtype_of (snd (coerce to_dt to_num df ! i)) \<noteq> Object \<and>
     (\<forall>xs. snd (coerce to_dt to_num df ! i) = DateCol xs \<and> non_missing xs \<noteq> [] \<longrightarrow>
        (\<exists>m. smallest_mode (non_missing xs) m \<and>
           (\<forall>imputed. impute (coerce to_dt to_num df) = Inr imputed \<longrightarrow>
              imputed ! i =
                (mapped_header (fst (df ! i)),
                 DateCol (map (\<lambda>x. case x of None \<Rightarrow> Some m | Some v \<Rightarrow> Some v) xs))) \<and>
           (\<forall>out. clean_data to_dt to_num df = Inr out \<longrightarrow>
              (\<exists>imputed. impute (coerce to_dt to_num df) = Inr imputed \<and>
                 cleaned_data out ! i =
                   (mapped_header (fst (df ! i)),
                    col_select (map Not (duplicated (rows imputed)))
                      (DateCol (map (\<lambda>x. case x of None \<Rightarrow> Some m | Some v \<Rightarrow> Some v) xs)))) \<and>
              NaN \<notin> set (cells (snd (cleaned_data out ! i)))))) \<and>
     (\<forall>bs. snd (coerce to_dt to_num df ! i) = BoolCol bs \<and> bs \<noteq> [] \<longrightarrow>
        NaN \<notin> set (cells (BoolCol bs)) \<and>
        (\<forall>imputed. impute (coerce to_dt to_num df) = Inr imputed \<longrightarrow>
           imputed ! i = (mapped_header (fst (df ! i)), BoolCol bs)) \<and>
        (\<forall>out. clean_data to_dt to_num df = Inr out \<longrightarrow>
           NaN \<notin> set (cells (snd (cleaned_data out ! i)))))"
proof (intro conjI allI impI)
  show "dtype_of (snd (coerce to_dt to_num df ! i)) \<noteq> Object"
    by (rule dtype_coerce_nth [OF assms])
next
  fix xs
  assume h: "snd (coerce to_dt to_num df ! i) = DateCol xs \<and> non_missing xs \<noteq> []"
  from h impute_col_mode [of xs "[]" "[]"] obtain m where
    sm: "smallest_mode (non_missing xs) m" and
    col: "impute_col (DateCol xs) =
            Inr (DateCol (map (\<lambda>x. case x of None \<Rightarrow> Some m | Some v \<Rightarrow> Some v) xs))" and
    nonan: "NaN \<notin> set (cells (DateCol (map (\<lambda>x. case x of None \<Rightarrow> Some m | Some v \<Rightarrow> Some v) xs)))"
    by blast
  let ?filled = "DateCol (map (\<lambda>x. case x of None \<Rightarrow> Some m | Some v \<Rightarrow> Some v) xs)"
  have ci: "i < length (coerce to_dt to_num df)" using assms by simp
  have nm: "fst (coerce to_dt to_num df ! i) = mapped_header (fst (df ! i))"
    using assms by (simp add: coerce_nth)
  have imp: "\<forall>imputed. impute (coerce to_dt to_num df) = Inr imputed \<longrightarrow>
              imputed ! i = (mapped_header (fst (df ! i)), ?filled)"
  proof (intro allI impI)
    fix imputed assume "impute (coerce to_dt to_num df) = Inr imputed"
    from impute_nth [OF this ci] h col nm
    show "imputed ! i = (mapped_header (fst (df ! i)), ?filled)" by (simp add: prod_eq_iff)
  qed
  have outp: "\<forall>out. clean_data to_dt to_num df = Inr out \<longrightarrow>
              (\<exists>imputed. impute (coerce to_dt to_num df) = Inr imputed \<and>
                 cleaned_data out ! i =
                   (mapped_header (fst (df ! i)),
                    col_select (map Not (duplicated (rows imputed))) ?filled)) \<and>
              NaN \<notin> set (cells (snd (cleaned_data out ! i)))"
  proof (intro allI impI)
    fix out assume "clean_data to_dt to_num df = Inr out"
    from clean_data_nth [OF this assms] obtain imputed where
      a: "impute (coerce to_dt to_num df) = Inr imputed" and
      b: "cleaned_data out ! i =
             (mapped_header (fst (df ! i)),
              col_select (map Not (duplicated (rows imputed))) (snd (imputed ! i)))"
      by blast
    from imp a have c: "snd (imputed ! i) = ?filled" by simp
    show "(\<exists>imputed. impute (coerce to_dt to_num df) = Inr imputed \<and>
                 cleaned_data out ! i =
                   (mapped_header (fst (df ! i)),
                    col_select (map Not (duplicated (rows imputed))) ?filled)) \<and>
              NaN \<notin> set (cells (snd (cleaned_data out ! i)))"
      using a b c col_select_no_missing [OF nonan] by auto
  qed
  show "\<exists>m. smallest_mode (non_missing xs) m \<and>
           (\<forall>imputed. impute (coerce to_dt to_num df) = Inr imputed \<longrightarrow>
              imputed ! i =
                (mapped_header (fst (df ! i)),
                 DateCol (map (\<lambda>x. case x of None \<Rightarrow> Some m | Some v \<Rightarrow> Some v) xs))) \<and>
           (\<forall>out. clean_data to_dt to_num df = Inr out \<longrightarrow>
              (\<exists>imputed. impute (coerce to_dt to_num df) = Inr imputed \<and>
                 cleaned_data out ! i =
                   (mapped_header (fst (df ! i)),
                    col_select (map Not (duplicated (rows imputed)))
                      (DateCol (map (\<lambda>x. case x of None \<Rightarrow> Some m | Some v \<Rightarrow> Some v) xs)))) \<and>
              NaN \<notin> set (cells (snd (cleaned_data out ! i))))"
    using sm imp outp by blast
next
  fix bs assume "snd (coerce to_dt to_num df ! i) = BoolCol bs \<and> bs \<noteq> []"
  show "NaN \<notin> set (cells (BoolCol bs))" by auto
next
  fix bs imputed
  assume h: "snd (coerce to_dt to_num df ! i) = BoolCol bs \<and> bs \<noteq> []"
    and imp: "impute (coerce to_dt to_num df) = Inr imputed"
  have ci: "i < length (coerce to_dt to_num df)" using assms by simp
  have nm: "fst (coerce to_dt to_num df ! i) = mapped_header (fst (df ! i))"
    using assms by (simp add: coerce_nth)
  from h impute_col_mode [of "[]" "[]" bs] have "impute_col (BoolCol bs) = Inr (BoolCol bs)"
    by blast
  with impute_nth [OF imp ci] h nm
  show "imputed ! i = (mapped_header (fst (df ! i)), BoolCol bs)" by (simp add: prod_eq_iff)
next
  fix bs out
  assume h: "snd (coerce to_dt to_num df ! i) = BoolCol bs \<and> bs \<noteq> []"
    and run: "clean_data to_dt to_num df = Inr out"
  from clean_data_nth [OF run assms] obtain imputed where
    a: "impute_col (snd (coerce to_dt to_num df ! i)) = Inr (snd (imputed ! i))" and
    b: "cleaned_data out ! i =
           (mapped_header (fst (df ! i)),
            col_select (map Not (duplicated (rows imputed))) (snd (imputed ! i)))"
    by blast
  from h impute_col_mode [of "[]" "[]" bs] have "impute_col (BoolCol bs) = Inr (BoolCol bs)"
    by blast
  with a h have "snd (imputed ! i) = BoolCol bs" by simp
  then show "NaN \<notin> set (cells (snd (cleaned_data out ! i)))"
    using b by auto
qed

theorem mode_imputation_witness:
  "0 < length visit_frame \<and>
   coerce plain_datetime plain_number visit_frame =
     [(''Test Date'', DateCol [Some 5, Some 3, None, Some 3, Some 5]),
      (''Passed'', BoolCol [True, False, True, True, False])] \<and>
   non_missing [Some (5::int), Some 3, None, Some 3, Some 5] \<noteq> [] \<and>
   smallest_mode (non_missing [Some (5::int), Some 3, None, Some 3, Some 5]) 3 \<and>
   impute (coerce plain_datetime plain_number visit_frame) =
     Inr [(''Test Date'', DateCol [Some 5, Some 3, Some 3, Some 3, Some 5]),
          (''Passed'', BoolCol [True, False, True, True, False])] \<and>
   clean_data plain_datetime plain_number visit_frame =
     Inr \<lparr> cleaned_data = [(''Test Date'', DateCol [Some 5, Some 3, Some 3, Some 5]),
                            (''Passed'', BoolCol [True, False, True, False])],
           metadata_report = \<lparr> index_labels = [''Test Date'', ''Passed''],
             original_headers = [''Test_Date'', ''Passed''],
             mapped_headers = [''Test Date'', ''Passed''],
             column_types = [Datetime64, BoolT], missing_values = [0, 0], unique_values = [2, 2] \<rparr> \<rparr>"
proof -
  have len: "0 < length visit_frame" by (simp add: visit_frame_def)
  have co: "coerce plain_datetime plain_number visit_frame =
     [(''Test Date'', DateCol [Some 5, Some 3, None, Some 3, Some 5]),
      (''Passed'', BoolCol [True, False, True, True, False])]"
    by (simp add: visit_frame_def run_defs)
  have imp: "impute (coerce plain_datetime plain_number visit_frame) =
     Inr [(''Test Date'', DateCol [Some 5, Some 3, Some 3, Some 3, Some 5]),
          (''Passed'', BoolCol [True, False, True, True, False])]"
    by (simp add: co) (simp add: run_defs)
  have run: "clean_data plain_datetime plain_number visit_frame =
     Inr \<lparr> cleaned_data = [(''Test Date'', DateCol [Some 5, Some 3, Some 3, Some 5]),
                            (''Passed'', BoolCol [True, False, True, False])],
           metadata_report = \<lparr> index_labels = [''Test Date'', ''Passed''],
             original_headers = [''Test_Date'', ''Passed''],
             mapped_headers = [''Test Date'', ''Passed''],
             column_types = [Datetime64, BoolT], missing_values = [0, 0], unique_values = [2, 2] \<rparr> \<rparr>"
    by (simp add: visit_frame_def run_defs Let_def)
  have pre: "snd (coerce plain_datetime plain_number visit_frame ! 0) =
        DateCol [Some 5, Some 3, None, Some 3, Some 5] \<and>
      non_missing [Some (5::int), Some 3, None, Some 3, Some 5] \<noteq> []"
    by (simp add: co)
  from mode_imputation [OF len, of plain_datetime plain_number] pre
  obtain m where sm: "smallest_mode (non_missing [Some (5::int), Some 3, None, Some 3, Some 5]) m"
    and fill: "\<forall>imputed. impute (coerce plain_datetime plain_number visit_frame) = Inr imputed \<longrightarrow>
       imputed ! 0 = (mapped_header (fst (visit_frame ! 0)),
          DateCol (map (\<lambda>x. case x of None \<Rightarrow> Some m | Some v \<Rightarrow> Some v)
             [Some 5, Some 3, None, Some 3, Some 5]))"
    by blast
  from fill imp have "m = 3" by simp
  with sm have "smallest_mode (non_missing [Some (5::int), Some 3, None, Some 3, Some 5]) 3" by simp
  then show ?thesis using len co imp run by simp
qed

text \<open>
  Claim C6. For a column of the frame that is \<^verbatim>\<open>float64\<close> after the type coercion
  and has at least one value, the imputation of \<^verbatim>\<open>clean_data\<close> replaces every
  missing cell with the arithmetic mean of the values present and keeps the other
  cells; afterwards no cell is missing, in the imputed frame and in the cleaned data,
  and the mean of the column is the mean it had before. An \<^verbatim>\<open>int64\<close> column has
  no missing cell and is left as it is. (Floating-point numbers are idealised as
  rationals, so the two means are equal.)
\<close>

theorem numeric_imputation:
  assumes "i < length df"
  shows "(\<forall>xs. snd (coerce to_dt to_num df ! i) = FloatCol xs \<and> non_missing xs \<noteq> [] \<longrightarrow>
            (let \<mu> = sum_list (non_missing xs) / of_nat (length (non_missing xs));
                 filled = map (\<lambda>x. case x of None \<Rightarrow> Some \<mu> | Some v \<Rightarrow> Some v) xs
             in mean xs = Some \<mu> \<and> None \<notin> set filled \<and> mean filled = Some \<mu> \<and>
                (\<forall>imputed. impute (coerce to_dt to_num df) = Inr imputed \<longrightarrow>
                   imputed ! i = (mapped_header (fst (df ! i)), FloatCol filled)) \<and>
                (\<forall>out. clean_data to_dt to_num df = Inr out \<longrightarrow>
                   (\<exists>imputed. impute (coerce to_dt to_num df) = Inr imputed \<and>
                      cleaned_data out ! i =
                        (mapped_header (fst (df ! i)),
                         col_select (map Not (duplicated (rows imputed))) (FloatCol filled))) \<and>
                   NaN \<notin> set (cells (snd (cleaned_data out ! i)))))) \<and>
         (\<forall>ns. snd (coerce to_dt to_num df ! i) = IntCol ns \<longrightarrow>
            NaN \<notin> set (cells (IntCol ns)) \<and>
            (\<forall>imputed. impute (coerce to_dt to_num df) = Inr imputed \<longrightarrow>
               imputed ! i = (mapped_header (fst (df ! i)), IntCol ns)) \<and>
            (\<forall>out. clean_data to_dt to_num df = Inr out \<longrightarrow>
               NaN \<notin> set (cells (snd (cleaned_data out ! i)))))"
proof (intro conjI allI impI)
  fix xs
  assume h: "snd (coerce to_dt to_num df ! i) = FloatCol xs \<and> non_missing xs \<noteq> []"
  define \<mu> where "\<mu> = sum_list (non_missing xs) / of_nat (length (non_missing xs))"
  define filled where "filled = map (\<lambda>x. case x of None \<Rightarrow> Some \<mu> | Some v \<Rightarrow> Some v) xs"
  from h impute_col_mean [of xs "[]"]
  have col: "mean xs = Some \<mu>" "impute_col (FloatCol xs) = Inr (FloatCol filled)"
    "None \<notin> set filled" "mean filled = Some \<mu>"
    unfolding Let_def \<mu>_def filled_def by blast+
  have ci: "i < length (coerce to_dt to_num df)" using assms by simp
  have nm: "fst (coerce to_dt to_num df ! i) = mapped_header (fst (df ! i))"
    using assms by (simp add: coerce_nth)
  have imp: "\<forall>imputed. impute (coerce to_dt to_num df) = Inr imputed \<longrightarrow>
                   imputed ! i = (mapped_header (fst (df ! i)), FloatCol filled)"
  proof (intro allI impI)
    fix imputed assume "impute (coerce to_dt to_num df) = Inr imputed"
    from impute_nth [OF this ci] h col(2) nm
    show "imputed ! i = (mapped_header (fst (df ! i)), FloatCol filled)"
      by (simp add: prod_eq_iff)
  qed
  have nonan: "NaN \<notin> set (cells (FloatCol filled))"
    using col(3) by (auto split: option.splits)
  have outp: "\<forall>out. clean_data to_dt to_num df = Inr out \<longrightarrow>
                   (\<exists>imputed. impute (coerce to_dt to_num df) = Inr imputed \<and>
                      cleaned_data out ! i =
                        (mapped_header (fst (df ! i)),
                         col_select (map Not (duplicated (rows imputed))) (FloatCol filled))) \<and>
                   NaN \<notin> set (cells (snd (cleaned_data out ! i)))"
  proof (intro allI impI)
    fix out assume "clean_data to_dt to_num df = Inr out"
    from clean_data_nth [OF this assms] obtain imputed where
      a: "impute (coerce to_dt to_num df) = Inr imputed" and
      b: "cleaned_data out ! i =
             (mapped_header (fst (df ! i)),
              col_select (map Not (duplicated (rows imputed))) (snd (imputed ! i)))"
      by blast
    from imp a have c: "snd (imputed ! i) = FloatCol filled" by simp
    show "(\<exists>imputed. impute (coerce to_dt to_num df) = Inr imputed \<and>
                      cleaned_data out ! i =
                        (mapped_header (fst (df ! i)),
                         col_select (map Not (duplicated (rows imputed))) (FloatCol filled))) \<and>
                   NaN \<notin> set (cells (snd (cleaned_data out ! i)))"
      using a b c col_select_no_missing [OF nonan] by auto
  qed
  show "let \<mu> = sum_list (non_missing xs) / of_nat (length (non_missing xs));
            filled = map (\<lambda>x. case x of None \<Rightarrow> Some \<mu> | Some v \<Rightarrow> Some v) xs
        in mean xs = Some \<mu> \<and> None \<notin> set filled \<and> mean filled = Some \<mu> \<and>
           (\<forall>imputed. impute (coerce to_dt to_num df) = Inr imputed \<longrightarrow>
              imputed ! i = (mapped_header (fst (df ! i)), FloatCol filled)) \<and>
           (\<forall>out. clean_data to_dt to_num df = Inr out \<longrightarrow>
              (\<exists>imputed. impute (coerce to_dt to_num df) = Inr imputed \<and>
                 cleaned_data out ! i =
                   (mapped_header (fst (df ! i)),
                    col_select (map Not (duplicated (rows imputed))) (FloatCol filled))) \<and>
              NaN \<notin> set (cells (snd (cleaned_data out ! i))))"
    unfolding Let_def \<mu>_def [symmetric] filled_def [symmetric]
    using col(1,3,4) imp outp by blast
next
  fix ns assume "snd (coerce to_dt to_num df ! i) = IntCol ns"
  show "NaN \<notin> set (cells (IntCol ns))" by auto
next
  fix ns imputed
  assume h: "snd (coerce to_dt to_num df ! i) = IntCol ns"
    and imp: "impute (coerce to_dt to_num df) = Inr imputed"
  have ci: "i < length (coerce to_dt to_num df)" using assms by simp
  have nm: "fst (coerce to_dt to_num df ! i) = mapped_header (fst (df ! i))"
    using assms by (simp add: coerce_nth)
  from impute_nth [OF imp ci] h nm
  show "imputed ! i = (mapped_header (fst (df ! i)), IntCol ns)" by (simp add: prod_eq_iff)
next
  fix ns out
  assume h: "snd (coerce to_dt to_num df ! i) = IntCol ns"
    and run: "clean_data to_dt to_num df = Inr out"
  from clean_data_nth [OF run assms] obtain imputed where
    a: "impute_col (snd (coerce to_dt to_num df ! i)) = Inr (snd (imputed ! i))" and
    b: "cleaned_data out ! i =
           (mapped_header (fst (df ! i)),
            col_select (map Not (duplicated (rows imputed))) (snd (imputed ! i)))"
    by blast
  from a h have "snd (imputed ! i) = IntCol ns" by simp
  moreover have "NaN \<notin> set (cells (IntCol ns))" by auto
  ultimately show "NaN \<notin> set (cells (snd (cleaned_data out ! i)))"
    using b by auto
qed

theorem numeric_imputation_witness:
  "0 < length reading_frame \<and>
   coerce plain_datetime plain_number reading_frame =
     [(''Temperature ('' @ degree_sign @ ''C)'', FloatCol [Some 20, None, Some 22]),
      (''Sample ID'', IntCol [1, 2, 3])] \<and>
   non_missing [Some (20::rat), None, Some 22] \<noteq> [] \<and>
   mean [Some 20, None, Some 22] = Some 21 \<and>
   impute (coerce plain_datetime plain_number reading_frame) =
     Inr [(''Temperature ('' @ degree_sign @ ''C)'', FloatCol [Some 20, Some 21, Some 22]),
          (''Sample ID'', IntCol [1, 2, 3])] \<and>
   mean [Some 20, Some 21, Some 22] = Some 21 \<and>
   clean_data plain_datetime plain_number reading_frame =
     Inr \<lparr> cleaned_data =
             [(''Temperature ('' @ degree_sign @ ''C)'', FloatCol [Some 20, Some 21, Some 22]),
              (''Sample ID'', IntCol [1, 2, 3])],
           metadata_report = \<lparr> index_labels = [''Temperature ('' @ degree_sign @ ''C)'', ''Sample ID''],
             original_headers = [''Temp ('' @ degree_sign @ ''C)'', ''Sample_ID''],
             mapped_headers = [''Temperature ('' @ degree_sign @ ''C)'', ''Sample ID''],
             column_types = [Float64, Int64], missing_values = [0, 0], unique_values = [3, 3] \<rparr> \<rparr>"
proof -
  have len: "0 < length reading_frame" by (simp add: reading_frame_def)
  have co: "coerce plain_datetime plain_number reading_frame =
     [(''Temperature ('' @ degree_sign @ ''C)'', FloatCol [Some 20, None, Some 22]),
      (''Sample ID'', IntCol [1, 2, 3])]"
    by (simp add: reading_frame_def run_defs)
  have run: "clean_data plain_datetime plain_number reading_frame =
     Inr \<lparr> cleaned_data =
             [(''Temperature ('' @ degree_sign @ ''C)'', FloatCol [Some 20, Some 21, Some 22]),
              (''Sample ID'', IntCol [1, 2, 3])],
           metadata_report = \<lparr> index_labels = [''Temperature ('' @ degree_sign @ ''C)'', ''Sample ID''],
             original_headers = [''Temp ('' @ degree_sign @ ''C)'', ''Sample_ID''],
             mapped_headers = [''Temperature ('' @ degree_sign @ ''C)'', ''Sample ID''],
             column_types = [Float64, Int64], missing_values = [0, 0], unique_values = [3, 3] \<rparr> \<rparr>"
    by (simp add: reading_frame_def run_defs Let_def)
  have imp: "impute (coerce plain_datetime plain_number reading_frame) =
     Inr [(''Temperature ('' @ degree_sign @ ''C)'', FloatCol [Some 20, Some 21, Some 22]),
          (''Sample ID'', IntCol [1, 2, 3])]"
    by (simp add: co) (simp add: run_defs)
  have pre: "snd (coerce plain_datetime plain_number reading_frame ! 0) = FloatCol [Some 20, None, Some 22] \<and>
        non_missing [Some (20::rat), None, Some 22] \<noteq> []"
    by (simp add: co)
  from numeric_imputation [OF len, of plain_datetime plain_number] pre
  have "let \<mu> = sum_list (non_missing [Some (20::rat), None, Some 22]) /
                 of_nat (length (non_missing [Some (20::rat), None, Some 22]));
            filled = map (\<lambda>x. case x of None \<Rightarrow> Some \<mu> | Some v \<Rightarrow> Some v) [Some 20, None, Some 22]
        in mean [Some 20, None, Some 22] = Some \<mu> \<and> None \<notin> set filled \<and> mean filled = Some \<mu> \<and>
           (\<forall>imputed. impute (coerce plain_datetime plain_number reading_frame) = Inr imputed \<longrightarrow>
              imputed ! 0 = (mapped_header (fst (reading_frame ! 0)), FloatCol filled)) \<and>
           (\<forall>out. clean_data plain_datetime plain_number reading_frame = Inr out \<longrightarrow>
              (\<exists>imputed. impute (coerce plain_datetime plain_number reading_frame) = Inr imputed \<and>
                 cleaned_data out ! 0 =
                   (mapped_header (fst (reading_frame ! 0)),
                    col_select (map Not (duplicated (rows imputed))) (FloatCol filled))) \<and>
              NaN \<notin> set (cells (snd (cleaned_data out ! 0))))"
    by blast
  then have "mean [Some 20, None, Some 22] = Some 21 \<and> mean [Some 20, Some 21, Some 22] = Some 21"
    by (simp add: Let_def)
  then show ?thesis using len co run imp by simp
qed

text \<open>
  Claim C7. In every result of \<^verbatim>\<open>clean_data\<close> the cleaned data is the imputed
  frame without its duplicate rows: a row is dropped exactly when an earlier row of
  the imputed frame is equal to it in every column, so the first row of each group of
  equal rows is kept; the rows kept are pairwise different, they are the rows of the
  imputed frame in their original order, and their number is the number of different
  rows of the imputed frame.
\<close>

theorem deduplication:
  assumes "wf_frame df"
  shows "clean_data to_dt to_num df = Inr out \<longrightarrow>
     (\<exists>imputed. impute (coerce to_dt to_num df) = Inr imputed \<and>
        cleaned_data out = drop_duplicates imputed \<and>
        (\<forall>i<nrows imputed.
           duplicated (rows imputed) ! i \<longleftrightarrow> (\<exists>j<i. rows imputed ! j = rows imputed ! i)) \<and>
        rows (cleaned_data out) = select (map Not (duplicated (rows imputed))) (rows imputed) \<and>
        distinct (rows (cleaned_data out)) \<and>
        set (rows (cleaned_data out)) = set (rows imputed) \<and>
        subseq (rows (cleaned_data out)) (rows imputed) \<and>
        nrows (cleaned_data out) = card (set (rows imputed)))"
proof
  assume "clean_data to_dt to_num df = Inr out"
  then obtain imputed where imp: "impute (coerce to_dt to_num df) = Inr imputed"
    and out: "cleaned_data out = drop_duplicates imputed"
    by (auto simp: clean_data_Inr_iff)
  have wf: "wf_frame imputed"
    using wf_frame_impute [OF imp wf_frame_coerce [OF assms]] .
  let ?rs = "rows imputed"
  have r: "rows (cleaned_data out) = select (map Not (duplicated ?rs)) ?rs"
    using rows_drop_duplicates [OF wf] out by simp
  from select_first_occurrences [of "[]" ?rs]
  have d: "distinct (rows (cleaned_data out))"
    and s: "set (rows (cleaned_data out)) = set ?rs"
    and q: "subseq (rows (cleaned_data out)) ?rs"
    by (simp_all add: r duplicated_def)
  have "nrows (cleaned_data out) = length (rows (cleaned_data out))" by simp
  also have "\<dots> = card (set ?rs)" using d s distinct_card by metis
  finally have n: "nrows (cleaned_data out) = card (set ?rs)" .
  have m: "\<forall>i<nrows imputed. duplicated ?rs ! i \<longleftrightarrow> (\<exists>j<i. ?rs ! j = ?rs ! i)"
    by (simp add: duplicated_nth)
  show "\<exists>imputed. impute (coerce to_dt to_num df) = Inr imputed \<and>
        cleaned_data out = drop_duplicates imputed \<and>
        (\<forall>i<nrows imputed.
           duplicated (rows imputed) ! i \<longleftrightarrow> (\<exists>j<i. rows imputed ! j = rows imputed ! i)) \<and>
        rows (cleaned_data out) = select (map Not (duplicated (rows imputed))) (rows imputed) \<and>
        distinct (rows (cleaned_data out)) \<and>
        set (rows (cleaned_data out)) = set (rows imputed) \<and>
        subseq (rows (cleaned_data out)) (rows imputed) \<and>
        nrows (cleaned_data out) = card (set (rows imputed))"
    using imp out m r d s q n by blast
qed

theorem deduplication_witness:
  "wf_frame repeat_frame \<and>
   impute (coerce plain_datetime plain_number repeat_frame) =
     Inr [(''Sample ID'', IntCol [1, 1, 2]), (''Result Value'', FloatCol [Some 5, Some 5, Some 5])] \<and>
   clean_data plain_datetime plain_number repeat_frame =
     Inr \<lparr> cleaned_data = [(''Sample ID'', IntCol [1, 2]), (''Result Value'', FloatCol [Some 5, Some 5])],
           metadata_report = \<lparr> index_labels = [''Sample ID'', ''Result Value''],
             original_headers = [''Sample_ID'', ''Result_Value''],
             mapped_headers = [''Sample ID'', ''Result Value''],
             column_types = [Int64, Float64], missing_values = [0, 0], unique_values = [2, 1] \<rparr> \<rparr> \<and>
   rows [(''Sample ID'', IntCol [1, 2]), (''Result Value'', FloatCol [Some 5, Some 5])] =
     [[IntV 1, FloatV 5], [IntV 2, FloatV 5]] \<and>
   nrows [(''Sample ID'', IntCol [1, 2]), (''Result Value'', FloatCol [Some 5, Some 5])] = nrows repeat_frame - 1"
proof -
  let ?out = "\<lparr> cleaned_data = [(''Sample ID'', IntCol [1, 2]), (''Result Value'', FloatCol [Some 5, Some 5])],
           metadata_report = \<lparr> index_labels = [''Sample ID'', ''Result Value''],
             original_headers = [''Sample_ID'', ''Result_Value''],
             mapped_headers = [''Sample ID'', ''Result Value''],
             column_types = [Int64, Float64], missing_values = [0, 0], unique_values = [2, 1] \<rparr> \<rparr>"
  let ?imp = "[(''Sample ID'', IntCol [1, 1, 2]), (''Result Value'', FloatCol [Some 5, Some 5, Some 5])]"
  have wf: "wf_frame repeat_frame" by (simp add: repeat_frame_def wf_frame_def nrows_def)
  have run: "clean_data plain_datetime plain_number repeat_frame = Inr ?out"
    by (simp add: repeat_frame_def run_defs)
  have imp: "impute (coerce plain_datetime plain_number repeat_frame) = Inr ?imp"
    by (simp add: repeat_frame_def run_defs)
  from deduplication [OF wf, of plain_datetime plain_number ?out] run imp
  have "rows (cleaned_data ?out) = select (map Not (duplicated (rows ?imp))) (rows ?imp)"
    by auto
  then have "rows [(''Sample ID'', IntCol [1, 2]), (''Result Value'', FloatCol [Some 5, Some 5])] =
     [[IntV 1, FloatV 5], [IntV 2, FloatV 5]]"
    by (simp add: rows_def nrows_def duplicated_def select_def)
  then show ?thesis using wf run imp by (simp add: repeat_frame_def nrows_def)
qed

text \<open>
  Claim C8. Header normalization renames exactly the column names of the fixed header
  mapping: a mapped name becomes its standard form, every other name is kept verbatim,
  the columns keep their order and their cells (none is added or removed), mapping a
  name twice is the same as mapping it once, and the cleaned data carries the mapped
  names of the input columns in the input order.
\<close>

theorem header_normalization:
  "map fst (rename_columns df) = map mapped_header (map fst df) \<and>
   map snd (rename_columns df) = map snd df \<and>
   (\<forall>h m. (h, m) \<in> set header_mapping \<longrightarrow> mapped_header h = m) \<and>
   (\<forall>h. h \<notin> fst ` set header_mapping \<longrightarrow> mapped_header h = h) \<and>
   (\<forall>h. mapped_header (mapped_header h) = mapped_header h) \<and>
   (\<forall>out. clean_data to_dt to_num df = Inr out \<longrightarrow>
      map fst (cleaned_data out) = map mapped_header (map fst df))"
proof -
  have "\<forall>out. clean_data to_dt to_num df = Inr out \<longrightarrow>
      map fst (cleaned_data out) = map mapped_header (map fst df)"
  proof (intro allI impI)
    fix out assume "clean_data to_dt to_num df = Inr out"
    then obtain imputed where imp: "impute (coerce to_dt to_num df) = Inr imputed"
      and out: "cleaned_data out = drop_duplicates imputed"
      by (auto simp: clean_data_Inr_iff)
    from impute_shape [OF imp] out
    show "map fst (cleaned_data out) = map mapped_header (map fst df)" by simp
  qed
  then show ?thesis
    using mapped_header_mapped mapped_header_unmapped mapped_header_idem
    by (simp add: rename_columns_def comp_def)
qed

theorem header_normalization_witness:
  "map fst (rename_columns [(''Sample_ID'', IntCol [1]), (''Batch'', IntCol [2])]) = [''Sample ID'', ''Batch''] \<and>
   (''Sample_ID'', ''Sample ID'') \<in> set header_mapping \<and> mapped_header ''Sample_ID'' = ''Sample ID'' \<and>
   ''Batch'' \<notin> fst ` set header_mapping \<and> mapped_header ''Batch'' = ''Batch'' \<and>
   mapped_header (mapped_header ''Sample_ID'') = mapped_header ''Sample_ID'' \<and>
   clean_data plain_datetime plain_number [(''Sample_ID'', IntCol [1]), (''Batch'', IntCol [2])] =
     Inr \<lparr> cleaned_data = [(''Sample ID'', IntCol [1]), (''Batch'', IntCol [2])],
           metadata_report = \<lparr> index_labels = [''Sample ID'', ''Batch''],
             original_headers = [''Sample_ID'', ''Batch''],
             mapped_headers = [''Sample ID'', ''Batch''],
             column_types = [Int64, Int64], missing_values = [0, 0], unique_values = [1, 1] \<rparr> \<rparr>"
  using header_normalization [of "[(''Sample_ID'', IntCol [1]), (''Batch'', IntCol [2])]" plain_datetime plain_number]
  by (simp add: run_defs)





end
